theory Spec2Isabelle
  imports Complex_Main "HOL-Library.Finite_Map" "HOL-Library.Sublist"
begin

chapter \<open>Definitions\<close>

section \<open>JavaScript strings and values\<close>

text \<open>
  A JavaScript string is a sequence of UTF-16 code units; a code unit is a natural number
  here, so a character outside ASCII is one number (or two, for a surrogate pair).
  \<open>js\<close> embeds an ASCII literal of the source.
\<close>

type_synonym jsstring = "nat list"

definition js :: "string \<Rightarrow> jsstring" where
  "js s = map of_char s"

text \<open>
  The values a response or a table cell can hold. Numbers are the integers among the
  JavaScript numbers. An object is the list of its own properties, each key held once;
  a read takes the first binding of the key.
\<close>

datatype json =
    JUndefined
  | JNull
  | JBool bool
  | JNum int
  | JStr jsstring
  | JArr "json list"
  | JObj "(jsstring \<times> json) list"

datatype jsError = TypeError | SyntaxError

text \<open>\<open>typeof v\<close>\<close>

fun typeOf :: "json \<Rightarrow> jsstring" where
  "typeOf JUndefined = js ''undefined''"
| "typeOf JNull = js ''object''"
| "typeOf (JBool b) = js ''boolean''"
| "typeOf (JNum n) = js ''number''"
| "typeOf (JStr s) = js ''string''"
| "typeOf (JArr xs) = js ''object''"
| "typeOf (JObj kvs) = js ''object''"

text \<open>
  \<open>k in v\<close>, for the property names the sources test (\<open>error\<close>, \<open>state\<close>, \<open>code\<close>,
  \<open>total\<close>, \<open>page\<close>): none of them is a property of an array or of \<open>Object.prototype\<close>.
  The sources apply \<open>in\<close> only after \<open>typeof v === 'object' && v !== null\<close>.
\<close>

fun hasProp :: "jsstring \<Rightarrow> json \<Rightarrow> bool" where
  "hasProp k (JObj kvs) = (map_of kvs k \<noteq> None)"
| "hasProp k v = False"

text \<open>
  \<open>v.k\<close>, for the same kind of property names: a read on \<open>null\<close> or \<open>undefined\<close>
  raises, a read of a missing property gives \<open>undefined\<close>.
\<close>

fun getProp :: "json \<Rightarrow> jsstring \<Rightarrow> jsError + json" where
  "getProp JUndefined k = Inl TypeError"
| "getProp JNull k = Inl TypeError"
| "getProp (JObj kvs) k = Inr (case map_of kvs k of None \<Rightarrow> JUndefined | Some v \<Rightarrow> v)"
| "getProp v k = Inr JUndefined"

text \<open>\<open>a ?? b\<close>\<close>

definition nullish :: "json \<Rightarrow> json \<Rightarrow> json" where
  "nullish a b = (if a = JUndefined \<or> a = JNull then b else a)"

text \<open>
  What the language and the browser provide and the sources only call; the model takes
  them as they are given.

  \<^item> \<open>numberToString\<close>: the text \<open>String\<close> makes of a number.
  \<^item> \<open>prototypeMember v k\<close>: the read \<open>v[k]\<close> of a property that \<open>v\<close> does not hold
    as a record: a member of a prototype (\<open>constructor\<close>, \<open>toString\<close>, \<open>__proto__\<close>),
    the length or an element of a string or an array, or \<open>undefined\<close> where there is
    none. What is read is a value, or a function, given by the text \<open>String\<close> makes of
    it.
  \<^item> \<open>measureText font text\<close>: the width of \<open>ctx.measureText(text)\<close> on the canvas
    context after \<open>ctx.font = font\<close>, taken as a function of the font and the text.
  \<^item> \<open>dateToLocaleString s locale\<close>: \<open>new Date(s).toLocaleString(locale, ...)\<close> with the
    options of \<open>formatDateForMeasurement\<close>; \<open>None\<close> where it raises.
\<close>

datatype member = Value json | Function jsstring

record Platform =
  numberToString :: "int \<Rightarrow> jsstring"
  prototypeMember :: "json \<Rightarrow> jsstring \<Rightarrow> member"
  measureText :: "jsstring \<Rightarrow> jsstring \<Rightarrow> real"
  dateToLocaleString :: "jsstring \<Rightarrow> jsstring \<Rightarrow> jsstring option"

text \<open>
  A platform for the examples: the decimal digits of an integer; of the members of
  \<open>Object.prototype\<close>, \<open>constructor\<close> and \<open>__proto__\<close>; a width of 7.25 pixels for each
  code unit in every font; and a date format that leaves the text as it is.
\<close>

fun digitsOf :: "nat \<Rightarrow> jsstring" where
  "digitsOf n = (if n < 10 then [48 + n] else digitsOf (n div 10) @ [48 + n mod 10])"

declare digitsOf.simps [simp del]

definition ex_numberToString :: "int \<Rightarrow> jsstring" where
  "ex_numberToString n = (if n < 0 then 45 # digitsOf (nat (- n)) else digitsOf (nat n))"

definition ex_prototypeMember :: "json \<Rightarrow> jsstring \<Rightarrow> member" where
  "ex_prototypeMember v k =
     (if k = js ''constructor'' then Function (js ''function Object() { [native code] }'')
      else if k = js ''__proto__'' then Value (JObj [])
      else Value JUndefined)"

definition ex_measureText :: "jsstring \<Rightarrow> jsstring \<Rightarrow> real" where
  "ex_measureText font t = real (length t) * 29 / 4"

definition ex_dateToLocaleString :: "jsstring \<Rightarrow> jsstring \<Rightarrow> jsstring option" where
  "ex_dateToLocaleString s locale = Some s"

definition ex_platform :: Platform where
  "ex_platform =
     \<lparr>numberToString = ex_numberToString, prototypeMember = ex_prototypeMember,
      measureText = ex_measureText, dateToLocaleString = ex_dateToLocaleString\<rparr>"

section \<open>API response parsing (lib/response-parser)\<close>

text \<open>
  \<open>isErrorResponse\<close>: the conjunction of the source, left to right; each property read
  stands behind the null test of the value it reads, so its \<open>TypeError\<close> branch is dead.
\<close>

definition isErrorResponse :: "json \<Rightarrow> bool" where
  "isErrorResponse response =
     (typeOf response = js ''object'' \<and>
      response \<noteq> JNull \<and>
      hasProp (js ''error'') response \<and>
      (case getProp response (js ''error'') of
         Inl _ \<Rightarrow> False
       | Inr err \<Rightarrow>
           typeOf err = js ''object'' \<and>
           err \<noteq> JNull \<and>
           (case getProp err (js ''code'') of
              Inl _ \<Rightarrow> False
            | Inr c \<Rightarrow> typeOf c = js ''string'')))"

definition isLegacyResponse :: "json \<Rightarrow> bool" where
  "isLegacyResponse response =
     (typeOf response = js ''object'' \<and>
      response \<noteq> JNull \<and>
      hasProp (js ''state'') response \<and>
      hasProp (js ''code'') response \<and>
      (case getProp response (js ''state'') of
         Inl _ \<Rightarrow> False
       | Inr s \<Rightarrow> typeOf s = js ''string''))"

text \<open>\<open>response.state !== 'success'\<close>; the callers test \<open>isLegacyResponse\<close> first.\<close>

definition isLegacyErrorResponse :: "json \<Rightarrow> jsError + bool" where
  "isLegacyErrorResponse response =
     (case getProp response (js ''state'') of
        Inl e \<Rightarrow> Inl e
      | Inr s \<Rightarrow> Inr (s \<noteq> JStr (js ''success'')))"

text \<open>\<open>parseResponse\<close>: the data of a response, \<open>null\<close> for an error response.\<close>

definition parseResponse :: "json \<Rightarrow> json" where
  "parseResponse response =
     (if response = JNull \<or> response = JUndefined then JNull
      else if isErrorResponse response then JNull
      else if isLegacyResponse response then
        (if isLegacyErrorResponse response = Inr True then JNull
         else (case getProp response (js ''data'') of
                 Inl _ \<Rightarrow> JNull
               | Inr d \<Rightarrow> nullish d JNull))
      else response)"

text \<open>\<open>getErrorCode\<close>: \<open>None\<close> is the \<open>null\<close> of the source.\<close>

definition getErrorCode :: "json \<Rightarrow> jsstring option" where
  "getErrorCode response =
     (if isErrorResponse response then
        (case getProp response (js ''error'') of
           Inr err \<Rightarrow>
             (case getProp err (js ''code'') of
                Inr (JStr c) \<Rightarrow> Some c
              | _ \<Rightarrow> None)
         | Inl _ \<Rightarrow> None)
      else if isLegacyResponse response \<and> isLegacyErrorResponse response = Inr True
        then Some (js ''SERVER_ERROR'')
      else None)"

text \<open>The examples of the specification, and a response that carries both envelopes.\<close>

definition ex_current_error :: json where
  "ex_current_error = JObj [(js ''error'', JObj [(js ''code'', JStr (js ''NOT_FOUND''))])]"

definition ex_legacy_error :: json where
  "ex_legacy_error =
     JObj [(js ''state'', JStr (js ''error'')), (js ''code'', JStr (js ''400'')),
           (js ''message'', JStr (js ''bad''))]"

definition ex_bare_payload :: json where
  "ex_bare_payload = JObj [(js ''id'', JNum 7), (js ''name'', JStr (js ''scan''))]"

definition ex_both_envelopes :: json where
  "ex_both_envelopes =
     JObj [(js ''state'', JStr (js ''error'')), (js ''code'', JStr (js ''400'')),
           (js ''error'', JObj [(js ''code'', JStr (js ''NOT_FOUND''))])]"

section \<open>Generic data table (components/ui/data-table/unified-data-table)\<close>

subsection \<open>Pagination handler\<close>

record PaginationState =
  pageIndex :: int
  pageSize :: int

text \<open>\<open>Updater<T>\<close> of the table library: a new value, or a function of the old one.\<close>

datatype 'a Updater = UValue 'a | UFunction "'a \<Rightarrow> 'a"

text \<open>
  The props the handler reads: the caller's pagination state, and whether the caller
  passed \<open>onPaginationChange\<close> and \<open>setPagination\<close>. A call of one of the three setters
  is recorded in \<open>paginationCalls\<close>; \<open>setInternalPagination\<close> also stores the state.
\<close>

record PaginationProps =
  externalPagination :: "PaginationState option"
  hasOnPaginationChange :: bool
  hasSetExternalPagination :: bool

datatype PaginationCall =
    OnPaginationChange PaginationState
  | SetExternalPagination PaginationState
  | SetInternalPagination PaginationState

record PaginationModel =
  internalPagination :: PaginationState
  paginationCalls :: "PaginationCall list"

definition isExternalPagination :: "PaginationProps \<Rightarrow> bool" where
  "isExternalPagination props =
     (externalPagination props \<noteq> None \<and>
      (hasOnPaginationChange props \<or> hasSetExternalPagination props))"

text \<open>\<open>externalPagination ?? internalPagination\<close>, which \<open>paginationRef.current\<close> holds.\<close>

definition pagination :: "PaginationProps \<Rightarrow> PaginationModel \<Rightarrow> PaginationState" where
  "pagination props st =
     (case externalPagination props of Some p \<Rightarrow> p | None \<Rightarrow> internalPagination st)"

definition applyUpdater :: "'a Updater \<Rightarrow> 'a \<Rightarrow> 'a" where
  "applyUpdater updater old = (case updater of UFunction f \<Rightarrow> f old | UValue v \<Rightarrow> v)"

definition handlePaginationChange ::
  "PaginationProps \<Rightarrow> PaginationModel \<Rightarrow> PaginationState Updater \<Rightarrow> PaginationModel" where
  "handlePaginationChange props st updater =
     (let currentPagination = pagination props st;
          newPagination = applyUpdater updater currentPagination
      in if pageIndex newPagination = pageIndex currentPagination \<and>
            pageSize newPagination = pageSize currentPagination
         then st
         else if isExternalPagination props then
           (if hasOnPaginationChange props
            then st\<lparr>paginationCalls := paginationCalls st @ [OnPaginationChange newPagination]\<rparr>
            else if hasSetExternalPagination props
            then st\<lparr>paginationCalls := paginationCalls st @ [SetExternalPagination newPagination]\<rparr>
            else st)
         else st\<lparr>internalPagination := newPagination,
                 paginationCalls := paginationCalls st @ [SetInternalPagination newPagination]\<rparr>)"

subsection \<open>Selection-change effect\<close>

text \<open>
  The row selection is a \<open>Record<string, boolean>\<close>: a finite map from row ids to
  booleans. \<open>Object.keys(m).length\<close> is the number of keys, and a read of a key that is
  not there gives \<open>undefined\<close> (\<open>None\<close>).
\<close>

type_synonym RowSelection = "(jsstring, bool) fmap"

definition selectionChanged :: "RowSelection \<Rightarrow> RowSelection \<Rightarrow> bool" where
  "selectionChanged rowSelection prevSelection =
     (fcard (fmdom rowSelection) \<noteq> fcard (fmdom prevSelection) \<or>
      (\<exists>key \<in> fset (fmdom rowSelection).
          fmlookup rowSelection key \<noteq> fmlookup prevSelection key))"

text \<open>
  The effect's state is \<open>prevRowSelectionRef.current\<close>; \<open>selectionCalls\<close> records each
  call of \<open>onSelectionChange\<close> with the selection it reports (the rows themselves come
  from the table library). The effect does nothing when no callback was passed.
\<close>

record SelectionModel =
  prevRowSelection :: RowSelection
  selectionCalls :: "RowSelection list"

definition initialSelectionModel :: SelectionModel where
  "initialSelectionModel = \<lparr>prevRowSelection = fmempty, selectionCalls = []\<rparr>"

definition selectionEffect :: "bool \<Rightarrow> RowSelection \<Rightarrow> SelectionModel \<Rightarrow> SelectionModel" where
  "selectionEffect hasOnSelectionChange rowSelection st =
     (if hasOnSelectionChange then
        (if selectionChanged rowSelection (prevRowSelection st)
         then st\<lparr>prevRowSelection := rowSelection,
                 selectionCalls := selectionCalls st @ [rowSelection]\<rparr>
         else st)
      else st)"

text \<open>The effect run once for each selection state of a sequence of renders.\<close>

definition runSelectionEffects :: "RowSelection list \<Rightarrow> SelectionModel \<Rightarrow> SelectionModel" where
  "runSelectionEffects sels st = fold (selectionEffect True) sels st"

text \<open>Two selections for the examples: \<open>{"1": true}\<close> and \<open>{"1": true, "2": false}\<close>.\<close>

definition ex_sel_one :: RowSelection where
  "ex_sel_one = fmupd (js ''1'') True fmempty"

definition ex_sel_two :: RowSelection where
  "ex_sel_two = fmupd (js ''2'') False (fmupd (js ''1'') True fmempty)"

subsection \<open>Valid rows\<close>

text \<open>\<open>ToBoolean\<close>, which \<open>item && ...\<close> applies to a row.\<close>

fun truthy :: "json \<Rightarrow> bool" where
  "truthy JUndefined = False"
| "truthy JNull = False"
| "truthy (JBool b) = b"
| "truthy (JNum n) = (n \<noteq> 0)"
| "truthy (JStr s) = (s \<noteq> [])"
| "truthy (JArr xs) = True"
| "truthy (JObj kvs) = True"

text \<open>\<open>Array.prototype.join\<close>\<close>

fun joinWith :: "jsstring \<Rightarrow> jsstring list \<Rightarrow> jsstring" where
  "joinWith sep [] = []"
| "joinWith sep [x] = x"
| "joinWith sep (x # y # ys) = x @ sep @ joinWith sep (y # ys)"

text \<open>
  \<open>String(v)\<close>. An array is joined with commas, a \<open>null\<close> or \<open>undefined\<close> element
  giving the empty text.
\<close>

fun toStr :: "Platform \<Rightarrow> json \<Rightarrow> jsstring" where
  "toStr env JUndefined = js ''undefined''"
| "toStr env JNull = js ''null''"
| "toStr env (JBool b) = (if b then js ''true'' else js ''false'')"
| "toStr env (JNum n) = numberToString env n"
| "toStr env (JStr s) = s"
| "toStr env (JArr xs) =
     joinWith (js '','')
       (map (\<lambda>x. if x = JUndefined \<or> x = JNull then [] else toStr env x) xs)"
| "toStr env (JObj kvs) = js ''[object Object]''"

text \<open>
  The default \<open>getRowId\<close>: \<open>String(row.id ?? '')\<close>. The read of \<open>id\<close> raises on a
  \<open>null\<close> row, which \<open>validData\<close> never passes.
\<close>

definition defaultGetRowId :: "Platform \<Rightarrow> json \<Rightarrow> jsError + json" where
  "defaultGetRowId env row =
     (case getProp row (js ''id'') of
        Inl e \<Rightarrow> Inl e
      | Inr v \<Rightarrow> Inr (JStr (toStr env (nullish v (JStr [])))))"

text \<open>\<open>Array.prototype.filter\<close> with a predicate that may raise: the first raise ends it.\<close>

fun filterE :: "('a \<Rightarrow> jsError + bool) \<Rightarrow> 'a list \<Rightarrow> jsError + 'a list" where
  "filterE p [] = Inr []"
| "filterE p (x # xs) =
     (case p x of
        Inl e \<Rightarrow> Inl e
      | Inr b \<Rightarrow>
          (case filterE p xs of
             Inl e \<Rightarrow> Inl e
           | Inr ys \<Rightarrow> Inr (if b then x # ys else ys)))"

text \<open>
  \<open>validData\<close>: \<open>(data || []).filter(item => item && typeof getRowId(item) !== 'undefined')\<close>.
  \<open>&&\<close> does not call \<open>getRowId\<close> on a falsy row.
\<close>

definition validRow :: "(json \<Rightarrow> jsError + json) \<Rightarrow> json \<Rightarrow> jsError + bool" where
  "validRow getRowId item =
     (if \<not> truthy item then Inr False
      else (case getRowId item of
              Inl e \<Rightarrow> Inl e
            | Inr v \<Rightarrow> Inr (typeOf v \<noteq> js ''undefined'')))"

definition validData ::
  "(json \<Rightarrow> jsError + json) \<Rightarrow> json list option \<Rightarrow> jsError + json list" where
  "validData getRowId data =
     filterE (validRow getRowId) (case data of None \<Rightarrow> [] | Some rows \<Rightarrow> rows)"

text \<open>
  Two id functions of a caller: \<open>(row) => row.key\<close>, and \<open>(row) => row.key.id\<close>, which
  raises on a row without \<open>key\<close>. And rows: records with and without \<open>id\<close> and
  \<open>key\<close>, holes, and rows that are no records.
\<close>

definition ex_keyGetRowId :: "json \<Rightarrow> jsError + json" where
  "ex_keyGetRowId row = getProp row (js ''key'')"

definition ex_keyIdGetRowId :: "json \<Rightarrow> jsError + json" where
  "ex_keyIdGetRowId row =
     (case getProp row (js ''key'') of Inl e \<Rightarrow> Inl e | Inr v \<Rightarrow> getProp v (js ''id''))"

definition ex_rows :: "json list" where
  "ex_rows =
     [JObj [(js ''id'', JNum 12), (js ''key'', JStr (js ''a''))],
      JNull,
      JObj [(js ''name'', JStr (js ''no id''))],
      JUndefined,
      JObj [(js ''id'', JStr (js ''x7'')), (js ''key'', JStr (js ''b''))]]"

definition ex_plain_rows :: "json list" where
  "ex_plain_rows = [JNum 0, JStr [], JBool False, JObj [(js ''name'', JStr (js ''no id''))]]"

section \<open>API client (lib/api-client): the response interceptor's error branch\<close>

text \<open>
  What the interceptor reads of the rejected request: \<open>axios.isAxiosError(error)\<close>,
  \<open>error.response?.status\<close> and \<open>error.config?.url\<close>.
\<close>

record AxiosError =
  isAxiosError :: bool
  responseStatus :: "int option"
  configUrl :: "jsstring option"

text \<open>\<open>String.prototype.includes\<close>\<close>

definition str_includes :: "jsstring \<Rightarrow> jsstring \<Rightarrow> bool" where
  "str_includes s sub = sublist sub s"

text \<open>\<open>error.config?.url || ''\<close>\<close>

definition requestUrl :: "AxiosError \<Rightarrow> jsstring" where
  "requestUrl error = (case configUrl error of None \<Rightarrow> [] | Some u \<Rightarrow> u)"

definition isAuthApi :: "jsstring \<Rightarrow> bool" where
  "isAuthApi url =
     (str_includes url (js ''/auth/login'') \<or>
      str_includes url (js ''/auth/logout'') \<or>
      str_includes url (js ''/auth/me''))"

text \<open>
  The error branch of the response interceptor, without its development logging. The
  first component is the value assigned to \<open>window.location.href\<close>, if the assignment
  runs; the second is the returned promise, always \<open>Promise.reject(error)\<close>.
  \<open>windowDefined\<close> is \<open>typeof window !== 'undefined'\<close>.
\<close>

definition responseErrorInterceptor ::
  "bool \<Rightarrow> AxiosError \<Rightarrow> jsstring option \<times> (AxiosError + unit)" where
  "responseErrorInterceptor windowDefined error =
     ((if isAxiosError error \<and> responseStatus error = Some 401 then
         (if \<not> isAuthApi (requestUrl error) \<and> windowDefined
          then Some (js ''/login'') else None)
       else None),
      Inl error)"

definition ex_401 :: "string \<Rightarrow> AxiosError" where
  "ex_401 url = \<lparr>isAxiosError = True, responseStatus = Some 401, configUrl = Some (js url)\<rparr>"

section \<open>Regular expressions of the sources\<close>

text \<open>
  The regular expressions of the sources, as syntax trees, with the backtracking
  semantics of the language: a match of a pattern from a state (the rest of the input
  and the text of capture group 1) is the list of the states it can end in, in the
  order in which the engine tries them. Every pattern here starts with \<open>^\<close> and has no
  \<open>m\<close> flag, so it matches at the start of the input or not at all, and \<open>$\<close> is the end of
  the input. \<open>Grp\<close> is the (only) capturing group.
\<close>

datatype rx =
    Epsilon
  | Chr nat
  | Cls "nat \<Rightarrow> bool"
  | Seq rx rx
  | Alt rx rx
  | Opt rx
  | Star rx
  | Plus rx
  | Rep nat rx
  | AtLeast nat rx
  | Grp rx
  | Eol

type_synonym rxstate = "jsstring \<times> jsstring option"

text \<open>
  Case: the flag \<open>i\<close> without \<open>u\<close> compares upper-case forms, and never equates a
  character outside ASCII with an ASCII one. The patterns with the flag hold ASCII
  letters only, so the upper-case form of ASCII letters decides every comparison.
  \<open>toUpperCase\<close> is likewise the ASCII one: the level names are ASCII.
\<close>

definition upperAscii :: "nat \<Rightarrow> nat" where
  "upperAscii c = (if 97 \<le> c \<and> c \<le> 122 then c - 32 else c)"

definition toUpperCase :: "jsstring \<Rightarrow> jsstring" where
  "toUpperCase s = map upperAscii s"

definition canonEq :: "bool \<Rightarrow> nat \<Rightarrow> nat \<Rightarrow> bool" where
  "canonEq ignoreCase x c = (if ignoreCase then upperAscii x = upperAscii c else x = c)"

text \<open>
  \<open>r*\<close>, greedy: one more round of \<open>r\<close> first, then none. A round that consumes nothing
  is rejected, as the language does, so a round shortens the input and the input's
  length bounds the number of rounds.
\<close>

fun starIter :: "(rxstate \<Rightarrow> rxstate list) \<Rightarrow> nat \<Rightarrow> rxstate \<Rightarrow> rxstate list" where
  "starIter f 0 st = [st]"
| "starIter f (Suc n) st =
     concat (map (\<lambda>st'. if length (fst st') < length (fst st) then starIter f n st' else [])
               (f st)) @ [st]"

text \<open>\<open>r{n}\<close>\<close>

fun repIter :: "(rxstate \<Rightarrow> rxstate list) \<Rightarrow> nat \<Rightarrow> rxstate \<Rightarrow> rxstate list" where
  "repIter f 0 st = [st]"
| "repIter f (Suc n) st = concat (map (repIter f n) (f st))"

fun rxm :: "bool \<Rightarrow> rx \<Rightarrow> rxstate \<Rightarrow> rxstate list" where
  "rxm ic Epsilon st = [st]"
| "rxm ic (Chr c) st =
     (case fst st of [] \<Rightarrow> [] | x # r \<Rightarrow> if canonEq ic x c then [(r, snd st)] else [])"
| "rxm ic (Cls p) st =
     (case fst st of [] \<Rightarrow> [] | x # r \<Rightarrow> if p x then [(r, snd st)] else [])"
| "rxm ic (Seq a b) st = concat (map (rxm ic b) (rxm ic a st))"
| "rxm ic (Alt a b) st = rxm ic a st @ rxm ic b st"
| "rxm ic (Opt a) st = rxm ic a st @ [st]"
| "rxm ic (Star a) st = starIter (rxm ic a) (length (fst st)) st"
| "rxm ic (Plus a) st =
     concat (map (\<lambda>st'. starIter (rxm ic a) (length (fst st')) st') (rxm ic a st))"
| "rxm ic (Rep n a) st = repIter (rxm ic a) n st"
| "rxm ic (AtLeast n a) st =
     concat (map (\<lambda>st'. starIter (rxm ic a) (length (fst st')) st') (repIter (rxm ic a) n st))"
| "rxm ic (Grp a) st =
     map (\<lambda>st'. (fst st', Some (take (length (fst st) - length (fst st')) (fst st))))
       (rxm ic a st)"
| "rxm ic Eol st = (if fst st = [] then [st] else [])"

text \<open>
  \<open>s.match(r)\<close> of a pattern without \<open>g\<close>: \<open>None\<close> is \<open>null\<close>, otherwise the text of
  group 1 in the first match the engine finds. \<open>r.test(s)\<close>: whether there is a match.
\<close>

definition rxExec :: "bool \<Rightarrow> rx \<Rightarrow> jsstring \<Rightarrow> jsstring option option" where
  "rxExec ic r s = (case rxm ic r (s, None) of [] \<Rightarrow> None | st # _ \<Rightarrow> Some (snd st))"

definition rxTest :: "bool \<Rightarrow> rx \<Rightarrow> jsstring \<Rightarrow> bool" where
  "rxTest ic r s = (rxm ic r (s, None) \<noteq> [])"

text \<open>A literal text, a sequence of patterns, and the classes \<open>\d\<close>, \<open>\w\<close>, \<open>\s\<close>.\<close>

fun lit :: "string \<Rightarrow> rx" where
  "lit [] = Epsilon"
| "lit (c # cs) = Seq (Chr (of_char c)) (lit cs)"

fun seqs :: "rx list \<Rightarrow> rx" where
  "seqs [] = Epsilon"
| "seqs (r # rs) = Seq r (seqs rs)"

definition digit :: "nat \<Rightarrow> bool" where
  "digit c = (48 \<le> c \<and> c \<le> 57)"

definition wordChar :: "nat \<Rightarrow> bool" where
  "wordChar c = (digit c \<or> (65 \<le> c \<and> c \<le> 90) \<or> (97 \<le> c \<and> c \<le> 122) \<or> c = 95)"

definition whiteSpace :: "nat \<Rightarrow> bool" where
  "whiteSpace c =
     (c = 9 \<or> c = 10 \<or> c = 11 \<or> c = 12 \<or> c = 13 \<or> c = 32 \<or> c = 160 \<or> c = 5760 \<or>
      (8192 \<le> c \<and> c \<le> 8202) \<or> c = 8232 \<or> c = 8233 \<or> c = 8239 \<or> c = 8287 \<or>
      c = 12288 \<or> c = 65279)"

text \<open>
  Three properties of a pattern's syntax, for the checks of the model: a pattern without
  a group leaves the group text alone; a pattern that consumes shortens the input on
  every path; a pattern that sets the group has a group that consumes on every path.
\<close>

fun noGroup :: "rx \<Rightarrow> bool" where
  "noGroup (Grp a) = False"
| "noGroup (Seq a b) = (noGroup a \<and> noGroup b)"
| "noGroup (Alt a b) = (noGroup a \<and> noGroup b)"
| "noGroup (Opt a) = noGroup a"
| "noGroup (Star a) = noGroup a"
| "noGroup (Plus a) = noGroup a"
| "noGroup (Rep n a) = noGroup a"
| "noGroup (AtLeast n a) = noGroup a"
| "noGroup r = True"

fun consumes :: "rx \<Rightarrow> bool" where
  "consumes (Chr c) = True"
| "consumes (Cls p) = True"
| "consumes (Seq a b) = (consumes a \<or> consumes b)"
| "consumes (Alt a b) = (consumes a \<and> consumes b)"
| "consumes (Plus a) = consumes a"
| "consumes (Rep n a) = (0 < n \<and> consumes a)"
| "consumes (AtLeast n a) = (0 < n \<and> consumes a)"
| "consumes (Grp a) = consumes a"
| "consumes r = False"

fun setsGroup :: "rx \<Rightarrow> bool" where
  "setsGroup (Grp a) = consumes a"
| "setsGroup (Seq a b) = (setsGroup b \<or> (setsGroup a \<and> noGroup b))"
| "setsGroup (Alt a b) = (setsGroup a \<and> setsGroup b)"
| "setsGroup r = False"

text \<open>The number of characters a pattern consumes, where its syntax fixes it.\<close>

fun fixedLength :: "rx \<Rightarrow> nat option" where
  "fixedLength Epsilon = Some 0"
| "fixedLength (Chr c) = Some 1"
| "fixedLength (Cls p) = Some 1"
| "fixedLength (Seq a b) =
     (case fixedLength a of
        None \<Rightarrow> None
      | Some m \<Rightarrow> map_option (\<lambda>n. m + n) (fixedLength b))"
| "fixedLength (Rep n a) = map_option (\<lambda>m. n * m) (fixedLength a)"
| "fixedLength r = None"

section \<open>Log viewer (components/settings/system-logs/ansi-log-viewer)\<close>

subsection \<open>Level extraction\<close>

text \<open>\<open>(DEBUG|INFO|WARNING|WARN|ERROR|CRITICAL)\<close>\<close>

definition levelGroup :: rx where
  "levelGroup =
     Grp (Alt (lit ''DEBUG'') (Alt (lit ''INFO'') (Alt (lit ''WARNING'')
          (Alt (lit ''WARN'') (Alt (lit ''ERROR'') (lit ''CRITICAL''))))))"

text \<open>
  \<open>LOG_LEVEL_PATTERNS\<close>, all with the flag \<open>i\<close>:
  \<^verbatim>\<open>/^\[\d{4}-\d{2}-\d{2} \d{2}:\d{2}:\d{2}\] \[(DEBUG|...)\]/i\<close>,
  \<^verbatim>\<open>/^[\d:.]+\s+\|\s+(DEBUG|...)\s+\|/i\<close>,
  \<^verbatim>\<open>/^(?:\[)?(DEBUG|...)(?:\])?[:\s]/i\<close>,
  \<^verbatim>\<open>/^(DEBUG|...)\s+-\s+/i\<close>.
\<close>

definition LOG_LEVEL_PATTERNS :: "rx list" where
  "LOG_LEVEL_PATTERNS =
     [seqs [lit ''['', Rep 4 (Cls digit), lit ''-'', Rep 2 (Cls digit), lit ''-'',
            Rep 2 (Cls digit), lit '' '', Rep 2 (Cls digit), lit '':'', Rep 2 (Cls digit),
            lit '':'', Rep 2 (Cls digit), lit ''] ['', levelGroup, lit '']''],
      seqs [Plus (Cls (\<lambda>c. digit c \<or> c = 58 \<or> c = 46)), Plus (Cls whiteSpace), lit ''|'',
            Plus (Cls whiteSpace), levelGroup, Plus (Cls whiteSpace), lit ''|''],
      seqs [Opt (lit ''[''), levelGroup, Opt (lit '']''), Cls (\<lambda>c. c = 58 \<or> whiteSpace c)],
      seqs [levelGroup, Plus (Cls whiteSpace), lit ''-'', Plus (Cls whiteSpace)]]"

text \<open>
  \<open>NEW_ENTRY_PATTERNS\<close>, each with its \<open>i\<close> flag:
  \<^verbatim>\<open>/^\[\d+\/\d+\]/\<close>, \<^verbatim>\<open>/^\[CONFIG\]/i\<close>, \<^verbatim>\<open>/^\[..\]/\<close> (the two
  characters U+8BCA U+65AD), \<^verbatim>\<open>/^={10,}$/\<close>, \<^verbatim>\<open>/^\[\d{4}-\d{2}-\d{2}/\<close>,
  \<^verbatim>\<open>/^\d{2}:\d{2}:\d{2}/\<close>, \<^verbatim>\<open>/^\/[\w/]+\.py:\d+:/\<close>.
\<close>

definition NEW_ENTRY_PATTERNS :: "(bool \<times> rx) list" where
  "NEW_ENTRY_PATTERNS =
     [(False, seqs [lit ''['', Plus (Cls digit), lit ''/'', Plus (Cls digit), lit '']'']),
      (True, lit ''[CONFIG]''),
      (False, seqs [lit ''['', Chr 35786, Chr 26029, lit '']'']),
      (False, seqs [AtLeast 10 (lit ''=''), Eol]),
      (False, seqs [lit ''['', Rep 4 (Cls digit), lit ''-'', Rep 2 (Cls digit), lit ''-'',
                    Rep 2 (Cls digit)]),
      (False, seqs [Rep 2 (Cls digit), lit '':'', Rep 2 (Cls digit), lit '':'',
                    Rep 2 (Cls digit)]),
      (False, seqs [lit ''/'', Plus (Cls (\<lambda>c. wordChar c \<or> c = 47)), lit ''.py:'',
                    Plus (Cls digit), lit '':''])]"

text \<open>
  \<open>extractLogLevel\<close>: the first pattern that matches gives \<open>match[1].toUpperCase()\<close>.
  Every pattern has its group on each of its paths, so a match has a group text.
\<close>

fun firstLevel :: "rx list \<Rightarrow> jsstring \<Rightarrow> jsstring option" where
  "firstLevel [] line = None"
| "firstLevel (pattern # rest) line =
     (case rxExec True pattern line of
        Some (Some g) \<Rightarrow> Some (toUpperCase g)
      | Some None \<Rightarrow> None
      | None \<Rightarrow> firstLevel rest line)"

definition extractLogLevel :: "jsstring \<Rightarrow> jsstring option" where
  "extractLogLevel line = firstLevel LOG_LEVEL_PATTERNS line"

definition isNewEntryStart :: "jsstring \<Rightarrow> bool" where
  "isNewEntryStart line = list_ex (\<lambda>(ic, pattern). rxTest ic pattern line) NEW_ENTRY_PATTERNS"

definition normalizeLevel :: "jsstring \<Rightarrow> jsstring" where
  "normalizeLevel l =
     (let upper = toUpperCase l
      in if upper = js ''WARNING'' then js ''WARN''
         else if upper = js ''CRITICAL'' then js ''ERROR''
         else upper)"

subsection \<open>Filtering by level\<close>

text \<open>\<open>content.split("\n")\<close> and \<open>result.join("\n")\<close>\<close>

fun splitOn :: "nat \<Rightarrow> jsstring \<Rightarrow> jsstring list" where
  "splitOn sep [] = [[]]"
| "splitOn sep (c # cs) =
     (if c = sep then [] # splitOn sep cs
      else (case splitOn sep cs of [] \<Rightarrow> [[c]] | l # ls \<Rightarrow> (c # l) # ls))"

definition splitLines :: "jsstring \<Rightarrow> jsstring list" where
  "splitLines content = splitOn 10 content"

definition joinLines :: "jsstring list \<Rightarrow> jsstring" where
  "joinLines ls = joinWith [10] ls"

text \<open>
  The loop of \<open>filterByLevel\<close>; its state is \<open>currentBlockVisible\<close> and \<open>result\<close>.
  \<open>if (extractedLevel)\<close> holds for a string that is not empty.
\<close>

definition lineVisible :: "jsstring \<Rightarrow> jsstring \<Rightarrow> bool \<Rightarrow> bool" where
  "lineVisible targetLevel line currentBlockVisible =
     (let extractedLevel = extractLogLevel line
      in case extractedLevel of
           Some l \<Rightarrow>
             (if l \<noteq> [] then normalizeLevel l = targetLevel
              else if isNewEntryStart line then False
              else currentBlockVisible)
         | None \<Rightarrow>
             (if isNewEntryStart line then False else currentBlockVisible))"

fun filterLoop ::
  "jsstring \<Rightarrow> jsstring list \<Rightarrow> bool \<times> jsstring list \<Rightarrow> bool \<times> jsstring list" where
  "filterLoop targetLevel [] st = st"
| "filterLoop targetLevel (line # rest) st =
     (let currentBlockVisible = lineVisible targetLevel line (fst st)
      in filterLoop targetLevel rest
           (currentBlockVisible, if currentBlockVisible then snd st @ [line] else snd st))"

definition filterByLevel :: "jsstring \<Rightarrow> jsstring \<Rightarrow> jsstring" where
  "filterByLevel content level =
     (if level = js ''all'' then content
      else joinLines (snd (filterLoop (normalizeLevel level) (splitLines content) (False, []))))"

text \<open>
  The words of the specification. The level of a line is the normalised level its
  marker gives, if it has one. A line without a level that does not start a new entry
  is a continuation line. A block is a line that is not a continuation line, with the
  continuation lines that follow it; \<open>spec_blocks\<close> cuts a list of lines that does not
  start with a continuation line into its blocks.
\<close>

definition lineLevel :: "jsstring \<Rightarrow> jsstring option" where
  "lineLevel line =
     (case extractLogLevel line of
        None \<Rightarrow> None
      | Some l \<Rightarrow> if l = [] then None else Some (normalizeLevel l))"

definition isContinuation :: "jsstring \<Rightarrow> bool" where
  "isContinuation line = (lineLevel line = None \<and> \<not> isNewEntryStart line)"

function spec_blocks :: "jsstring list \<Rightarrow> (jsstring \<times> jsstring list) list" where
  "spec_blocks [] = []"
| "spec_blocks (h # rest) =
     (h, takeWhile isContinuation rest) # spec_blocks (dropWhile isContinuation rest)"
  by pat_completeness auto
termination
  by (relation "measure length") (auto simp: length_dropWhile_le less_Suc_eq_le)

definition blockLines :: "jsstring \<times> jsstring list \<Rightarrow> jsstring list" where
  "blockLines b = fst b # snd b"

text \<open>Log texts for the examples.\<close>

definition ex_log_steps :: jsstring where
  "ex_log_steps = joinLines [js ''INFO: scan started'', js ''[1/4] resolving'', js ''  10 hosts'']"

definition ex_log_mixed :: jsstring where
  "ex_log_mixed =
     joinLines [js ''  banner'',
                js ''[2026-01-07 12:00:00] [WARNING] disk low'',
                js ''  at check (disk.py)'',
                js ''INFO: scan started'',
                js ''  detail'',
                js ''[1/4] resolving'',
                js ''warn: slow answer'',
                js ''CRITICAL - lost worker'']"

subsection \<open>Rendering\<close>


text \<open>
  \<open>logLineRegex\<close>, without flags:
  \<^verbatim>\<open>/^(\[\d{4}-\d{2}-\d{2} \d{2}:\d{2}:\d{2}\]) (\[(DEBUG|...)\]) (.*)$/\<close>.
  \<open>timestampPattern\<close> is the pattern of group 1. The group of the syntax tree is
  group 3, the level. The other groups follow from it: group 1 is the first 21
  characters, group 2 is the level in its brackets, and group 4 is what follows the
  blank after group 2. \<open>.\<close> is any character but a line terminator.
\<close>

definition lineTerminator :: "nat \<Rightarrow> bool" where
  "lineTerminator c = (c = 10 \<or> c = 13 \<or> c = 8232 \<or> c = 8233)"

definition timestampPattern :: rx where
  "timestampPattern =
     seqs [lit ''['', Rep 4 (Cls digit), lit ''-'', Rep 2 (Cls digit), lit ''-'',
           Rep 2 (Cls digit), lit '' '', Rep 2 (Cls digit), lit '':'', Rep 2 (Cls digit),
           lit '':'', Rep 2 (Cls digit), lit '']'']"

definition logLineRegex :: rx where
  "logLineRegex =
     seqs [timestampPattern, lit '' ['', levelGroup, lit ''] '',
           Star (Cls (\<lambda>c. \<not> lineTerminator c)), Eol]"




subsection \<open>Search highlighting\<close>

















text \<open>
  \<^verbatim>\<open>html.replace(/(<[^>]+>)|([^<]+)/g, ...)\<close>. \<open>segments\<close> is the search of
  \<open>replace\<close>: from left to right, the matches of the pattern, each a tag (group 1) or a
  run of text (group 2), and between them the characters at which neither alternative
  matches (a \<open><\<close> that opens no tag). Both alternatives consume at least one
  character; the test \<open>0 < n\<close> only tells the definition so. \<open>replacement\<close> is the
  callback: a tag is kept, a run of text is passed to \<open>onText\<close>; \<open>replace\<close> keeps a
  character outside the matches.
\<close>

definition tagPattern :: rx where
  "tagPattern = seqs [lit ''<'', Plus (Cls (\<lambda>c. c \<noteq> 62)), lit ''>'']"

definition textPattern :: rx where
  "textPattern = Plus (Cls (\<lambda>c. c \<noteq> 60))"

definition matchLength :: "rx \<Rightarrow> jsstring \<Rightarrow> nat option" where
  "matchLength r s =
     (case rxm False r (s, None) of
        [] \<Rightarrow> None
      | st # _ \<Rightarrow> Some (length s - length (fst st)))"



















section \<open>Column widths (lib/table-utils) and the table's auto-sizing effect\<close>

text \<open>
  A column definition, as far as the width calculation and the table's effect read it:
  \<open>accessorKey\<close>, \<open>id\<close>, \<open>size\<close>, \<open>minSize\<close>, \<open>maxSize\<close>, \<open>enableAutoSize\<close> and
  \<open>meta.title\<close>. Widths are real numbers.
\<close>

record ColumnDef =
  accessorKey :: "jsstring option"
  id_col :: "jsstring option"
  size_col :: "real option"
  minSize :: "real option"
  maxSize :: "real option"
  enableAutoSize :: "bool option"
  metaTitle :: "jsstring option"

text \<open>
  The options of \<open>calculateColumnWidths\<close>; \<open>None\<close> is an option left out, which takes
  its default. A row is a value that is not \<open>null\<close> or \<open>undefined\<close>: the declared
  type of \<open>data\<close> is an array of records, and the table passes \<open>validData\<close>, whose rows
  are truthy. \<open>headerLabels\<close> holds texts.
\<close>

record CalculateColumnWidthsOptions =
  optData :: "json list"
  optColumns :: "ColumnDef list"
  optFont :: "jsstring option"
  optCellPadding :: "real option"
  optHeaderFont :: "jsstring option"
  optHeaderLabels :: "(jsstring \<rightharpoonup> jsstring) option"
  optMaxSampleRows :: "real option"
  optLocale :: "jsstring option"










text \<open>\<open>column.accessorKey || column.id\<close>; \<open>None\<close> where \<open>!columnId\<close> holds.\<close>

definition truthyText :: "jsstring option \<Rightarrow> bool" where
  "truthyText s = (case s of None \<Rightarrow> False | Some t \<Rightarrow> t \<noteq> [])"

definition columnIdOf :: "ColumnDef \<Rightarrow> jsstring option" where
  "columnIdOf column =
     (let columnId = (if truthyText (accessorKey column) then accessorKey column
                      else id_col column)
      in if truthyText columnId then columnId else None)"

















text \<open>\<open>headerLabels[colId] = colDef.meta.title\<close> where \<open>colId && colDef.meta?.title\<close>.\<close>

definition headerLabelStep :: "ColumnDef \<Rightarrow> (jsstring \<rightharpoonup> jsstring) \<Rightarrow> (jsstring \<rightharpoonup> jsstring)" where
  "headerLabelStep col headerLabels =
     (case columnIdOf col of
        None \<Rightarrow> headerLabels
      | Some colId \<Rightarrow>
          if truthyText (metaTitle col) \<and> colId \<noteq> js ''__proto__''
          then headerLabels(colId := metaTitle col)
          else headerLabels)"

definition tableWidthOptions ::
  "json list \<Rightarrow> ColumnDef list \<Rightarrow> jsstring \<Rightarrow> CalculateColumnWidthsOptions" where
  "tableWidthOptions rows columns locale =
     \<lparr>optData = rows, optColumns = columns, optFont = None,
      optCellPadding = None, optHeaderFont = None,
      optHeaderLabels = Some (fold headerLabelStep columns Map.empty),
      optMaxSampleRows = None, optLocale = Some locale\<rparr>"







text \<open>
  Examples: two rows, and four columns: an auto-sized one, one that opts out of
  auto-sizing, one with neither \<open>accessorKey\<close> nor \<open>id\<close>, and one named \<open>__proto__\<close>.
\<close>

definition ex_width_rows :: "json list" where
  "ex_width_rows =
     [JObj [(js ''name'', JStr (js ''alpha''))], JObj [(js ''name'', JStr (js ''beta-gamma''))]]"





definition ex_width_options :: "real option \<Rightarrow> ColumnDef list \<Rightarrow> CalculateColumnWidthsOptions" where
  "ex_width_options cap columns =
     \<lparr>optData = ex_width_rows, optColumns = columns, optFont = None,
      optCellPadding = None, optHeaderFont = None, optHeaderLabels = None,
      optMaxSampleRows = cap, optLocale = None\<rparr>"



chapter \<open>Theorems\<close>

section \<open>Response envelopes\<close>

lemma js_object_neq [simp]:
  "js ''object'' \<noteq> js ''undefined''" "js ''object'' \<noteq> js ''boolean''"
  "js ''object'' \<noteq> js ''number''" "js ''object'' \<noteq> js ''string''"
  "js ''string'' \<noteq> js ''undefined''" "js ''string'' \<noteq> js ''boolean''"
  "js ''string'' \<noteq> js ''number''" "js ''string'' \<noteq> js ''object''"
  by (simp_all add: js_def)

lemma typeOf_object_iff:
  "typeOf v = js ''object'' \<longleftrightarrow> v = JNull \<or> (\<exists>xs. v = JArr xs) \<or> (\<exists>kvs. v = JObj kvs)"
  by (cases v) (simp_all add: js_def)

lemma typeOf_string_iff: "typeOf v = js ''string'' \<longleftrightarrow> (\<exists>s. v = JStr s)"
  by (cases v) (simp_all add: js_def)

text \<open>The current envelope, as the guard reads it: an object whose \<open>error\<close> is an object
  (or an array) with a string \<open>code\<close>; an array has no \<open>code\<close>, so it is an object.\<close>

lemma isErrorResponse_iff:
  "isErrorResponse r \<longleftrightarrow>
     (\<exists>kvs e c. r = JObj kvs \<and> map_of kvs (js ''error'') = Some (JObj e) \<and>
        map_of e (js ''code'') = Some (JStr c))"
proof
  assume h: "isErrorResponse r"
  then obtain kvs where r: "r = JObj kvs"
    by (cases r) (auto simp: isErrorResponse_def)
  from h r obtain ev where ev: "map_of kvs (js ''error'') = Some ev"
    by (auto simp: isErrorResponse_def)
  from h r ev have e1: "typeOf ev = js ''object''" "ev \<noteq> JNull"
    and e2: "(case getProp ev (js ''code'') of Inl _ \<Rightarrow> False | Inr c \<Rightarrow> typeOf c = js ''string'')"
    by (auto simp: isErrorResponse_def)
  from e1 e2 obtain e where e: "ev = JObj e"
    by (cases ev) (auto simp: js_def)
  from e2 e obtain c where "map_of e (js ''code'') = Some (JStr c)"
    by (auto simp: typeOf_string_iff split: option.splits)
  with r ev e show "\<exists>kvs e c. r = JObj kvs \<and> map_of kvs (js ''error'') = Some (JObj e) \<and>
        map_of e (js ''code'') = Some (JStr c)"
    by blast
next
  assume "\<exists>kvs e c. r = JObj kvs \<and> map_of kvs (js ''error'') = Some (JObj e) \<and>
        map_of e (js ''code'') = Some (JStr c)"
  then show "isErrorResponse r"
    by (auto simp: isErrorResponse_def)
qed

lemma isLegacyResponse_iff:
  "isLegacyResponse r \<longleftrightarrow>
     (\<exists>kvs s. r = JObj kvs \<and> map_of kvs (js ''state'') = Some (JStr s) \<and>
        map_of kvs (js ''code'') \<noteq> None)"
proof
  assume h: "isLegacyResponse r"
  then obtain kvs where r: "r = JObj kvs"
    by (cases r) (auto simp: isLegacyResponse_def)
  from h r show "\<exists>kvs s. r = JObj kvs \<and> map_of kvs (js ''state'') = Some (JStr s) \<and>
        map_of kvs (js ''code'') \<noteq> None"
    by (auto simp: isLegacyResponse_def typeOf_string_iff)
next
  assume "\<exists>kvs s. r = JObj kvs \<and> map_of kvs (js ''state'') = Some (JStr s) \<and>
        map_of kvs (js ''code'') \<noteq> None"
  then show "isLegacyResponse r"
    by (auto simp: isLegacyResponse_def)
qed

lemma getErrorCode_current:
  assumes "map_of kvs (js ''error'') = Some (JObj e)" "map_of e (js ''code'') = Some (JStr c)"
  shows "getErrorCode (JObj kvs) = Some c"
proof -
  have "isErrorResponse (JObj kvs)"
    using assms by (auto simp: isErrorResponse_iff)
  then show ?thesis
    using assms by (simp add: getErrorCode_def)
qed

lemma getErrorCode_None_iff:
  "getErrorCode r = None \<longleftrightarrow>
     \<not> isErrorResponse r \<and> \<not> (isLegacyResponse r \<and> isLegacyErrorResponse r = Inr True)"
proof (cases "isErrorResponse r")
  case True
  then obtain kvs e c where "r = JObj kvs" "map_of kvs (js ''error'') = Some (JObj e)"
    "map_of e (js ''code'') = Some (JStr c)"
    by (auto simp: isErrorResponse_iff)
  then have "getErrorCode r = Some c"
    by (simp add: getErrorCode_current)
  with True show ?thesis by simp
next
  case False
  then show ?thesis by (simp add: getErrorCode_def)
qed

text \<open>
  C1. \<open>getErrorCode\<close> on the two envelopes and on a bare payload. An input that passes
  the guard of the current envelope yields the inner \<open>code\<close>; an input that passes the
  legacy guard with a state other than \<open>success\<close>, and does not pass the guard of the
  current envelope, yields \<open>SERVER_ERROR\<close>; an object with no \<open>error\<close> property that
  lacks \<open>state\<close> or \<open>code\<close> yields \<open>null\<close>. The current envelope is tested first, so it
  wins on an input that carries both.
\<close>

theorem getErrorCode_envelopes:
  "(isErrorResponse r \<longrightarrow>
      (\<exists>kvs e c. r = JObj kvs \<and> map_of kvs (js ''error'') = Some (JObj e) \<and>
         map_of e (js ''code'') = Some (JStr c) \<and> getErrorCode r = Some c)) \<and>
   (isLegacyResponse r \<and> isLegacyErrorResponse r = Inr True \<and> \<not> isErrorResponse r \<longrightarrow>
      getErrorCode r = Some (js ''SERVER_ERROR'')) \<and>
   (map_of props (js ''error'') = None \<and>
      (map_of props (js ''state'') = None \<or> map_of props (js ''code'') = None) \<longrightarrow>
      getErrorCode (JObj props) = None)"
proof (intro conjI impI)
  assume "isErrorResponse r"
  then obtain kvs e c where s: "r = JObj kvs" "map_of kvs (js ''error'') = Some (JObj e)"
    "map_of e (js ''code'') = Some (JStr c)"
    by (auto simp: isErrorResponse_iff)
  then have "getErrorCode r = Some c"
    by (simp add: getErrorCode_current)
  with s show "\<exists>kvs e c. r = JObj kvs \<and> map_of kvs (js ''error'') = Some (JObj e) \<and>
         map_of e (js ''code'') = Some (JStr c) \<and> getErrorCode r = Some c"
    by blast
next
  assume "isLegacyResponse r \<and> isLegacyErrorResponse r = Inr True \<and> \<not> isErrorResponse r"
  then show "getErrorCode r = Some (js ''SERVER_ERROR'')"
    by (simp add: getErrorCode_def)
next
  assume h: "map_of props (js ''error'') = None \<and>
      (map_of props (js ''state'') = None \<or> map_of props (js ''code'') = None)"
  then have "\<not> isErrorResponse (JObj props)" "\<not> isLegacyResponse (JObj props)"
    by (auto simp: isErrorResponse_iff isLegacyResponse_iff)
  then show "getErrorCode (JObj props) = None"
    by (simp add: getErrorCode_None_iff)
qed

lemma ex_current_error_guard: "isErrorResponse ex_current_error"
  by (simp add: ex_current_error_def isErrorResponse_def js_def)

lemma ex_legacy_error_guards:
  "isLegacyResponse ex_legacy_error \<and> isLegacyErrorResponse ex_legacy_error = Inr True \<and>
   \<not> isErrorResponse ex_legacy_error"
  by (simp add: ex_legacy_error_def isLegacyResponse_def isLegacyErrorResponse_def
      isErrorResponse_def js_def)

theorem getErrorCode_envelopes_witness:
  "isErrorResponse ex_current_error \<and>
   getErrorCode ex_current_error = Some (js ''NOT_FOUND'') \<and>
   isLegacyResponse ex_legacy_error \<and> isLegacyErrorResponse ex_legacy_error = Inr True \<and>
   \<not> isErrorResponse ex_legacy_error \<and>
   getErrorCode ex_legacy_error = Some (js ''SERVER_ERROR'') \<and>
   getErrorCode ex_bare_payload = None"
proof -
  have a: "getErrorCode ex_current_error = Some (js ''NOT_FOUND'')"
    using getErrorCode_envelopes [of ex_current_error "[]"] ex_current_error_guard
    by (auto simp: ex_current_error_def js_def)
  have b: "getErrorCode ex_legacy_error = Some (js ''SERVER_ERROR'')"
    using getErrorCode_envelopes [of ex_legacy_error "[]"] ex_legacy_error_guards
    by blast
  have c: "getErrorCode ex_bare_payload = None"
    using getErrorCode_envelopes
      [of JNull "[(js ''id'', JNum 7), (js ''name'', JStr (js ''scan''))]"]
    by (simp add: ex_bare_payload_def js_def)
  from a b c ex_current_error_guard ex_legacy_error_guards show ?thesis
    by blast
qed

text \<open>
  The claim as written fails where an input carries both envelopes: the legacy guard
  holds with a non-success state, and the inner code is returned, not \<open>SERVER_ERROR\<close>.
\<close>

theorem getErrorCode_both_envelopes_counterexample:
  "isLegacyResponse ex_both_envelopes \<and>
   isLegacyErrorResponse ex_both_envelopes = Inr True \<and>
   getErrorCode ex_both_envelopes = Some (js ''NOT_FOUND'') \<and>
   getErrorCode ex_both_envelopes \<noteq> Some (js ''SERVER_ERROR'')"
  by (simp add: ex_both_envelopes_def isLegacyResponse_def isLegacyErrorResponse_def
      isErrorResponse_def getErrorCode_def js_def)

text \<open>
  C9. \<open>getErrorCode\<close> and \<open>parseResponse\<close> are complementary: a response with an error
  code has no data.
\<close>

theorem error_code_excludes_data:
  "getErrorCode r \<noteq> None \<Longrightarrow> parseResponse r = JNull"
proof -
  assume "getErrorCode r \<noteq> None"
  then have "isErrorResponse r \<or> (isLegacyResponse r \<and> isLegacyErrorResponse r = Inr True)"
    by (simp add: getErrorCode_None_iff)
  then show "parseResponse r = JNull"
    by (auto simp: parseResponse_def)
qed

theorem error_code_excludes_data_witness:
  "getErrorCode ex_legacy_error \<noteq> None \<and> parseResponse ex_legacy_error = JNull \<and>
   getErrorCode ex_current_error \<noteq> None \<and> parseResponse ex_current_error = JNull"
proof -
  have a: "getErrorCode ex_legacy_error \<noteq> None"
    by (simp add: getErrorCode_None_iff ex_legacy_error_guards)
  have b: "getErrorCode ex_current_error \<noteq> None"
    by (simp add: getErrorCode_None_iff ex_current_error_guard)
  from a b error_code_excludes_data [OF a] error_code_excludes_data [OF b] show ?thesis
    by simp
qed

section \<open>Generic data table\<close>

text \<open>
  C5. A pagination update whose \<open>pageIndex\<close> and \<open>pageSize\<close> equal the current ones
  changes nothing: the model, with its record of setter calls, is returned as it was,
  whether the update is a value or an updater function.
\<close>

theorem handlePaginationChange_unchanged:
  "pageIndex (applyUpdater updater (pagination props st)) = pageIndex (pagination props st) \<Longrightarrow>
   pageSize (applyUpdater updater (pagination props st)) = pageSize (pagination props st) \<Longrightarrow>
   handlePaginationChange props st updater = st"
  by (simp add: handlePaginationChange_def Let_def)

theorem handlePaginationChange_unchanged_witness:
  "handlePaginationChange
     \<lparr>externalPagination = Some \<lparr>pageIndex = 2, pageSize = 10\<rparr>,
      hasOnPaginationChange = True, hasSetExternalPagination = False\<rparr>
     \<lparr>internalPagination = \<lparr>pageIndex = 0, pageSize = 10\<rparr>, paginationCalls = []\<rparr>
     (UFunction (\<lambda>p. p\<lparr>pageSize := 10\<rparr>))
   = \<lparr>internalPagination = \<lparr>pageIndex = 0, pageSize = 10\<rparr>, paginationCalls = []\<rparr> \<and>
   handlePaginationChange
     \<lparr>externalPagination = None, hasOnPaginationChange = False,
      hasSetExternalPagination = False\<rparr>
     \<lparr>internalPagination = \<lparr>pageIndex = 0, pageSize = 10\<rparr>, paginationCalls = []\<rparr>
     (UValue \<lparr>pageIndex = 0, pageSize = 10\<rparr>)
   = \<lparr>internalPagination = \<lparr>pageIndex = 0, pageSize = 10\<rparr>, paginationCalls = []\<rparr>"
proof -
  have a: "handlePaginationChange
     \<lparr>externalPagination = Some \<lparr>pageIndex = 2, pageSize = 10\<rparr>,
      hasOnPaginationChange = True, hasSetExternalPagination = False\<rparr>
     \<lparr>internalPagination = \<lparr>pageIndex = 0, pageSize = 10\<rparr>, paginationCalls = []\<rparr>
     (UFunction (\<lambda>p. p\<lparr>pageSize := 10\<rparr>))
   = \<lparr>internalPagination = \<lparr>pageIndex = 0, pageSize = 10\<rparr>, paginationCalls = []\<rparr>"
    by (rule handlePaginationChange_unchanged) (simp_all add: applyUpdater_def pagination_def)
  have b: "handlePaginationChange
     \<lparr>externalPagination = None, hasOnPaginationChange = False,
      hasSetExternalPagination = False\<rparr>
     \<lparr>internalPagination = \<lparr>pageIndex = 0, pageSize = 10\<rparr>, paginationCalls = []\<rparr>
     (UValue \<lparr>pageIndex = 0, pageSize = 10\<rparr>)
   = \<lparr>internalPagination = \<lparr>pageIndex = 0, pageSize = 10\<rparr>, paginationCalls = []\<rparr>"
    by (rule handlePaginationChange_unchanged) (simp_all add: applyUpdater_def pagination_def)
  from a b show ?thesis by simp
qed

text \<open>A changed page is passed on, once, to the setter the props select.\<close>

lemma handlePaginationChange_changed:
  "pageIndex (applyUpdater updater (pagination props st)) \<noteq> pageIndex (pagination props st) \<or>
   pageSize (applyUpdater updater (pagination props st)) \<noteq> pageSize (pagination props st) \<Longrightarrow>
   \<not> isExternalPagination props \<Longrightarrow>
   handlePaginationChange props st updater =
     st\<lparr>internalPagination := applyUpdater updater (pagination props st),
        paginationCalls := paginationCalls st @
          [SetInternalPagination (applyUpdater updater (pagination props st))]\<rparr>"
  by (auto simp: handlePaginationChange_def Let_def)

lemma selectionChanged_iff: "selectionChanged a b \<longleftrightarrow> a \<noteq> b"
proof
  assume "selectionChanged a b"
  then show "a \<noteq> b"
    by (auto simp: selectionChanged_def)
next
  assume ne: "a \<noteq> b"
  show "selectionChanged a b"
  proof (rule ccontr)
    assume "\<not> selectionChanged a b"
    then have card: "fcard (fmdom a) = fcard (fmdom b)"
      and same: "\<And>k. k |\<in>| fmdom a \<Longrightarrow> fmlookup a k = fmlookup b k"
      by (auto simp: selectionChanged_def)
    have "fmdom a |\<subseteq>| fmdom b"
    proof
      fix k assume k: "k |\<in>| fmdom a"
      then obtain v where "fmlookup a k = Some v"
        by (auto simp: fmlookup_dom_iff)
      with same [OF k] have "fmlookup b k = Some v" by simp
      then show "k |\<in>| fmdom b"
        by (auto simp: fmlookup_dom_iff)
    qed
    with card have dom: "fmdom a = fmdom b"
      by (simp add: fcard_seteq)
    have "a = b"
    proof (rule fmap_ext)
      fix k
      show "fmlookup a k = fmlookup b k"
      proof (cases "k |\<in>| fmdom a")
        case True
        then show ?thesis by (rule same)
      next
        case False
        with dom have "k |\<notin>| fmdom a" "k |\<notin>| fmdom b" by simp_all
        then show ?thesis by (simp add: fmdom_notD)
      qed
    qed
    with ne show False by simp
  qed
qed

lemma selectionEffect_step:
  "selectionEffect True sel st =
     (if sel = prevRowSelection st then st
      else st\<lparr>prevRowSelection := sel, selectionCalls := selectionCalls st @ [sel]\<rparr>)"
  by (simp add: selectionEffect_def selectionChanged_iff)

lemma runSelectionEffects_calls:
  "selectionCalls (fold (selectionEffect True) sels st) =
     selectionCalls st @ tl (remdups_adj (prevRowSelection st # sels))"
proof (induction sels arbitrary: st)
  case Nil
  then show ?case by simp
next
  case (Cons s sels)
  show ?case
  proof (cases "s = prevRowSelection st")
    case True
    then show ?thesis
      using Cons.IH [of st] by (simp add: selectionEffect_step)
  next
    case False
    then show ?thesis
      using Cons.IH [of "st\<lparr>prevRowSelection := s, selectionCalls := selectionCalls st @ [s]\<rparr>"]
      by (simp add: selectionEffect_step)
  qed
qed

text \<open>
  C4. The selection callback fires exactly when the selection map differs from the one
  reported before (the empty selection at the start), and then stores it: over a
  sequence of selection states the reported selections are the sequence with every
  repetition of the preceding state dropped. Without a callback nothing is reported.
\<close>

theorem onSelectionChange_once_per_change:
  "(selectionChanged rowSelection prev \<longleftrightarrow> rowSelection \<noteq> prev) \<and>
   selectionEffect True rowSelection st =
     (if rowSelection = prevRowSelection st then st
      else st\<lparr>prevRowSelection := rowSelection,
              selectionCalls := selectionCalls st @ [rowSelection]\<rparr>) \<and>
   selectionCalls (runSelectionEffects sels initialSelectionModel) =
     tl (remdups_adj (fmempty # sels)) \<and>
   selectionEffect False rowSelection st = st"
  by (simp add: selectionChanged_iff selectionEffect_step runSelectionEffects_def
      runSelectionEffects_calls initialSelectionModel_def)
    (simp add: selectionEffect_def)

lemma ex_selections_differ:
  "ex_sel_one \<noteq> fmempty" "fmempty \<noteq> ex_sel_one" "ex_sel_two \<noteq> fmempty"
  "fmempty \<noteq> ex_sel_two" "ex_sel_two \<noteq> ex_sel_one"
proof -
  show "ex_sel_one \<noteq> fmempty" "ex_sel_two \<noteq> fmempty"
    by (simp_all add: ex_sel_one_def ex_sel_two_def)
  then show "fmempty \<noteq> ex_sel_one" "fmempty \<noteq> ex_sel_two"
    by (simp_all add: ex_sel_one_def ex_sel_two_def)
  show "ex_sel_two \<noteq> ex_sel_one"
  proof
    assume "ex_sel_two = ex_sel_one"
    then have "fmlookup ex_sel_two (js ''2'') = fmlookup ex_sel_one (js ''2'')" by simp
    then show False by (simp add: ex_sel_two_def ex_sel_one_def js_def)
  qed
qed

theorem onSelectionChange_once_per_change_witness:
  "selectionCalls
     (runSelectionEffects [ex_sel_one, ex_sel_one, fmempty, fmempty, ex_sel_two, ex_sel_two]
        initialSelectionModel)
   = [ex_sel_one, fmempty, ex_sel_two]"
  using onSelectionChange_once_per_change [of fmempty fmempty initialSelectionModel
      "[ex_sel_one, ex_sel_one, fmempty, fmempty, ex_sel_two, ex_sel_two]"]
    ex_selections_differ
  by simp

lemma typeOf_undefined_iff: "typeOf v = js ''undefined'' \<longleftrightarrow> v = JUndefined"
  by (cases v) (simp_all add: js_def)

lemma filterE_total:
  "\<forall>x \<in> set xs. p x = Inr (q x) \<Longrightarrow> filterE p xs = Inr (filter q xs)"
  by (induction xs) simp_all

lemma filterE_raises:
  "\<forall>x \<in> set pre. \<exists>b. p x = Inr b \<Longrightarrow> p r = Inl e \<Longrightarrow> filterE p (pre @ r # post) = Inl e"
  by (induction pre) (auto split: sum.splits)

lemma validRow_returns:
  "truthy r \<longrightarrow> (\<exists>v. getRowId r = Inr v) \<Longrightarrow>
   validRow getRowId r = Inr (truthy r \<and> getRowId r \<noteq> Inr JUndefined)"
  by (auto simp: validRow_def typeOf_undefined_iff)

lemma defaultGetRowId_truthy:
  "truthy r \<Longrightarrow> \<exists>s. defaultGetRowId env r = Inr (JStr s)"
  by (cases r) (simp_all add: defaultGetRowId_def)

text \<open>
  C7. \<open>validData\<close> is the input with exactly the rows kept, in order, that are truthy
  and whose row id is not \<open>undefined\<close>, as long as the id function returns on the truthy
  rows; the first truthy row on which it raises ends the filter with that error; no
  data is no rows. A row is truthy unless it is \<open>undefined\<close>, \<open>null\<close>, \<open>false\<close>, \<open>0\<close>
  or the empty text. The default id function \<open>String(row.id ?? '')\<close> gives every
  truthy row a string, so with it the rows kept are the truthy ones, with or without
  an \<open>id\<close>.
\<close>

theorem validData_exactly_rows_with_id:
  "((\<forall>r \<in> set rows. truthy r \<longrightarrow> (\<exists>v. getRowId r = Inr v)) \<longrightarrow>
      validData getRowId (Some rows) =
        Inr (filter (\<lambda>r. truthy r \<and> getRowId r \<noteq> Inr JUndefined) rows)) \<and>
   (rows = pre @ r # post \<and> (\<forall>x \<in> set pre. truthy x \<longrightarrow> (\<exists>v. getRowId x = Inr v)) \<and>
    truthy r \<and> getRowId r = Inl e \<longrightarrow>
      validData getRowId (Some rows) = Inl e) \<and>
   validData (defaultGetRowId env) (Some rows) = Inr (filter truthy rows) \<and>
   validData getRowId None = Inr [] \<and>
   (truthy x \<longleftrightarrow>
      x \<noteq> JUndefined \<and> x \<noteq> JNull \<and> x \<noteq> JBool False \<and> x \<noteq> JNum 0 \<and> x \<noteq> JStr [])"
proof (intro conjI impI)
  show "validData getRowId (Some rows) =
     Inr (filter (\<lambda>r. truthy r \<and> getRowId r \<noteq> Inr JUndefined) rows)"
    if "\<forall>r \<in> set rows. truthy r \<longrightarrow> (\<exists>v. getRowId r = Inr v)"
    unfolding validData_def using that
    by (auto intro!: filterE_total simp: validRow_returns)
next
  assume a: "rows = pre @ r # post \<and>
    (\<forall>x \<in> set pre. truthy x \<longrightarrow> (\<exists>v. getRowId x = Inr v)) \<and> truthy r \<and> getRowId r = Inl e"
  have "\<forall>x \<in> set pre. \<exists>b. validRow getRowId x = Inr b"
    using a by (simp add: validRow_returns)
  moreover have "validRow getRowId r = Inl e"
    using a by (simp add: validRow_def)
  ultimately have "filterE (validRow getRowId) (pre @ r # post) = Inl e"
    by (rule filterE_raises)
  then show "validData getRowId (Some rows) = Inl e"
    using a by (simp add: validData_def)
next
  have "validRow (defaultGetRowId env) r = Inr (truthy r)" for r
    using defaultGetRowId_truthy [of r env] by (auto simp: validRow_def js_def)
  then show "validData (defaultGetRowId env) (Some rows) = Inr (filter truthy rows)"
    unfolding validData_def by (auto intro!: filterE_total)
next
  show "validData getRowId None = Inr []"
    by (simp add: validData_def)
next
  show "truthy x \<longleftrightarrow>
      x \<noteq> JUndefined \<and> x \<noteq> JNull \<and> x \<noteq> JBool False \<and> x \<noteq> JNum 0 \<and> x \<noteq> JStr []"
    by (cases x) auto
qed

lemma ex_keyGetRowId_returns: "\<forall>r \<in> set ex_rows. truthy r \<longrightarrow> (\<exists>v. ex_keyGetRowId r = Inr v)"
  by (simp add: ex_rows_def ex_keyGetRowId_def)

lemma ex_keyIdGetRowId_raises:
  "ex_rows = [JObj [(js ''id'', JNum 12), (js ''key'', JStr (js ''a''))], JNull] @
     JObj [(js ''name'', JStr (js ''no id''))] #
     [JUndefined, JObj [(js ''id'', JStr (js ''x7'')), (js ''key'', JStr (js ''b''))]]"
  "\<forall>x \<in> set [JObj [(js ''id'', JNum 12), (js ''key'', JStr (js ''a''))], JNull].
     truthy x \<longrightarrow> (\<exists>v. ex_keyIdGetRowId x = Inr v)"
  "truthy (JObj [(js ''name'', JStr (js ''no id''))])"
  "ex_keyIdGetRowId (JObj [(js ''name'', JStr (js ''no id''))]) = Inl TypeError"
  by (simp_all add: ex_rows_def ex_keyIdGetRowId_def js_def)

theorem validData_exactly_rows_with_id_witness:
  "validData ex_keyGetRowId (Some ex_rows) =
     Inr [JObj [(js ''id'', JNum 12), (js ''key'', JStr (js ''a''))],
          JObj [(js ''id'', JStr (js ''x7'')), (js ''key'', JStr (js ''b''))]] \<and>
   validData ex_keyIdGetRowId (Some ex_rows) = Inl TypeError \<and>
   validData (defaultGetRowId ex_platform) (Some ex_rows) =
     Inr [JObj [(js ''id'', JNum 12), (js ''key'', JStr (js ''a''))],
          JObj [(js ''name'', JStr (js ''no id''))],
          JObj [(js ''id'', JStr (js ''x7'')), (js ''key'', JStr (js ''b''))]]"
proof -
  note c7 = validData_exactly_rows_with_id
  have a: "validData ex_keyGetRowId (Some ex_rows) =
     Inr [JObj [(js ''id'', JNum 12), (js ''key'', JStr (js ''a''))],
          JObj [(js ''id'', JStr (js ''x7'')), (js ''key'', JStr (js ''b''))]]"
    using c7 [of ex_rows ex_keyGetRowId] ex_keyGetRowId_returns
    by (simp add: ex_rows_def ex_keyGetRowId_def [abs_def] js_def)
  have b: "validData ex_keyIdGetRowId (Some ex_rows) = Inl TypeError"
    using c7 [of ex_rows ex_keyIdGetRowId
        "[JObj [(js ''id'', JNum 12), (js ''key'', JStr (js ''a''))], JNull]"
        "JObj [(js ''name'', JStr (js ''no id''))]"
        "[JUndefined, JObj [(js ''id'', JStr (js ''x7'')), (js ''key'', JStr (js ''b''))]]"
        TypeError]
      ex_keyIdGetRowId_raises
    by blast
  have c: "validData (defaultGetRowId ex_platform) (Some ex_rows) =
     Inr [JObj [(js ''id'', JNum 12), (js ''key'', JStr (js ''a''))],
          JObj [(js ''name'', JStr (js ''no id''))],
          JObj [(js ''id'', JStr (js ''x7'')), (js ''key'', JStr (js ''b''))]]"
    using c7 [of ex_rows _ _ _ _ _ ex_platform]
    by (simp add: ex_rows_def)
  from a b c show ?thesis by simp
qed

text \<open>
  The claim as written fails for rows that are no records: \<open>0\<close>, the empty text and
  \<open>false\<close> are not \<open>null\<close> and the default id function gives each of them the id
  \<open>''\<close>, yet \<open>validData\<close> drops them, and it drops them under every id function. And
  a row without \<open>id\<close> is not filtered out under the default id function: its id is
  \<open>''\<close> too, and it is kept.
\<close>

theorem validData_falsy_rows_counterexample:
  "defaultGetRowId ex_platform (JNum 0) = Inr (JStr []) \<and>
   defaultGetRowId ex_platform (JStr []) = Inr (JStr []) \<and>
   defaultGetRowId ex_platform (JBool False) = Inr (JStr []) \<and>
   defaultGetRowId ex_platform (JObj [(js ''name'', JStr (js ''no id''))]) = Inr (JStr []) \<and>
   validData (defaultGetRowId ex_platform) (Some ex_plain_rows) =
     Inr [JObj [(js ''name'', JStr (js ''no id''))]] \<and>
   validData Inr (Some ex_plain_rows) = Inr [JObj [(js ''name'', JStr (js ''no id''))]]"
  by (simp add: defaultGetRowId_def nullish_def validData_def validRow_def ex_plain_rows_def
      js_def)

section \<open>API client\<close>

text \<open>
  C8. On a failed request with status 401 the interceptor assigns \<open>/login\<close> to
  \<open>window.location.href\<close> exactly when the request URL contains none of
  \<open>/auth/login\<close>, \<open>/auth/logout\<close>, \<open>/auth/me\<close> and a \<open>window\<close> exists (the code runs in
  a browser); for an auth URL nothing is assigned; the error is rejected in every case.
\<close>

theorem unauthorized_redirect:
  "isAxiosError error \<Longrightarrow> responseStatus error = Some 401 \<Longrightarrow>
   (fst (responseErrorInterceptor windowDefined error) = Some (js ''/login'') \<longleftrightarrow>
      \<not> isAuthApi (requestUrl error) \<and> windowDefined) \<and>
   (isAuthApi (requestUrl error) \<longrightarrow>
      fst (responseErrorInterceptor windowDefined error) = None) \<and>
   snd (responseErrorInterceptor windowDefined error) = Inl error"
  by (simp add: responseErrorInterceptor_def)

lemma ex_auth_urls:
  "\<not> isAuthApi (requestUrl (ex_401 ''/scans/''))"
  "isAuthApi (requestUrl (ex_401 ''/auth/me/''))"
  by (simp_all add: isAuthApi_def requestUrl_def ex_401_def str_includes_def js_def
      sublist_code prefix_code)

theorem unauthorized_redirect_witness:
  "fst (responseErrorInterceptor True (ex_401 ''/scans/'')) = Some (js ''/login'') \<and>
   fst (responseErrorInterceptor True (ex_401 ''/auth/me/'')) = None \<and>
   snd (responseErrorInterceptor True (ex_401 ''/scans/'')) = Inl (ex_401 ''/scans/'')"
proof -
  have a: "isAxiosError (ex_401 u)" "responseStatus (ex_401 u) = Some 401" for u
    by (simp_all add: ex_401_def)
  from unauthorized_redirect [of "ex_401 ''/scans/''" True]
    unauthorized_redirect [of "ex_401 ''/auth/me/''" True] a ex_auth_urls
  show ?thesis by simp
qed

text \<open>
  The claim as written fails where no \<open>window\<close> exists: a 401 on a URL that is not an
  auth endpoint is rejected without a redirect.
\<close>

theorem unauthorized_no_window_counterexample:
  "isAxiosError (ex_401 ''/scans/'') \<and> responseStatus (ex_401 ''/scans/'') = Some 401 \<and>
   \<not> isAuthApi (requestUrl (ex_401 ''/scans/'')) \<and>
   fst (responseErrorInterceptor False (ex_401 ''/scans/'')) = None"
  using ex_auth_urls(1) by (simp add: responseErrorInterceptor_def ex_401_def)

section \<open>Regular expressions\<close>

text \<open>
  The engine's bound on the rounds of \<open>r*\<close> is never the reason a round is not tried:
  any bound from the input's length on gives the same matches. A match never
  lengthens the input. Every level pattern sets its group to a non-empty text, so
  \<open>extractLogLevel\<close> never meets a match without a group text, and its result is never
  the empty string. The two alternatives of the tag-or-text pattern consume.
\<close>

lemma starIter_enough_fuel:
  "length (fst st) \<le> n \<Longrightarrow> length (fst st) \<le> m \<Longrightarrow> starIter f n st = starIter f m st"
proof (induction n arbitrary: m st)
  case 0
  then have "starIter f (Suc k) st = [st]" for k
    by (simp add: concat_eq_Nil_conv)
  then show ?case by (cases m) simp_all
next
  case (Suc n)
  show ?case
  proof (cases m)
    case 0
    with Suc.prems show ?thesis by simp
  next
    case (Suc k)
    have "(if length (fst st') < length (fst st) then starIter f n st' else []) =
          (if length (fst st') < length (fst st) then starIter f k st' else [])" for st'
      using Suc.IH [of st' k] Suc.prems Suc by auto
    then show ?thesis by (simp add: Suc)
  qed
qed

lemma starIter_invariant:
  assumes "\<And>x y. y \<in> set (f x) \<Longrightarrow> R x y" "\<And>x. R x x" "\<And>x y z. R x y \<Longrightarrow> R y z \<Longrightarrow> R x z"
  shows "y \<in> set (starIter f n x) \<Longrightarrow> R x y"
proof (induction n arbitrary: x)
  case 0
  then show ?case by (simp add: assms(2))
next
  case (Suc n)
  then show ?case
    by (auto simp: assms(2) split: if_splits intro: assms(3) [OF assms(1)])
qed

lemma repIter_invariant:
  assumes "\<And>x y. y \<in> set (f x) \<Longrightarrow> R x y" "\<And>x. R x x" "\<And>x y z. R x y \<Longrightarrow> R y z \<Longrightarrow> R x z"
  shows "y \<in> set (repIter f n x) \<Longrightarrow> R x y"
proof (induction n arbitrary: x)
  case 0
  then show ?case by (simp add: assms(2))
next
  case (Suc n)
  then show ?case
    by (auto intro: assms(3) [OF assms(1)])
qed

lemma starIter_shorter:
  "y \<in> set (starIter f n x) \<Longrightarrow> length (fst y) \<le> length (fst x)"
proof (induction n arbitrary: x)
  case 0
  then show ?case by simp
next
  case (Suc n)
  from Suc.prems consider "y = x"
    | mid where "mid \<in> set (f x)" "length (fst mid) < length (fst x)"
        "y \<in> set (starIter f n mid)"
    by (auto split: if_splits)
  then show ?case
  proof cases
    case 1
    then show ?thesis by simp
  next
    case 2
    from Suc.IH [OF 2(3)] 2(2) show ?thesis by simp
  qed
qed

lemma repIter_shorter:
  assumes "\<And>x y. y \<in> set (f x) \<Longrightarrow> length (fst y) \<le> length (fst x)"
  shows "y \<in> set (repIter f n x) \<Longrightarrow> length (fst y) \<le> length (fst x)"
proof (induction n arbitrary: x)
  case 0
  then show ?case by simp
next
  case (Suc n)
  from Suc.prems obtain mid where m: "mid \<in> set (f x)" "y \<in> set (repIter f n mid)"
    by auto
  from Suc.IH [OF m(2)] assms [OF m(1)] show ?case by simp
qed

lemma rxm_shorter:
  "st' \<in> set (rxm ic r st) \<Longrightarrow> length (fst st') \<le> length (fst st)"
proof (induction r arbitrary: st st')
  case Epsilon
  then show ?case by simp
next
  case (Chr c)
  then show ?case by (cases "fst st") (auto split: if_splits)
next
  case (Cls p)
  then show ?case by (cases "fst st") (auto split: if_splits)
next
  case (Seq a b)
  from Seq.prems obtain mid where m: "mid \<in> set (rxm ic a st)" "st' \<in> set (rxm ic b mid)"
    by auto
  from Seq.IH(1) [OF m(1)] Seq.IH(2) [OF m(2)] show ?case by simp
next
  case (Alt a b)
  from Alt.prems have "st' \<in> set (rxm ic a st) \<or> st' \<in> set (rxm ic b st)" by simp
  then show ?case
  proof
    assume "st' \<in> set (rxm ic a st)" then show ?thesis by (rule Alt.IH(1))
  next
    assume "st' \<in> set (rxm ic b st)" then show ?thesis by (rule Alt.IH(2))
  qed
next
  case (Opt a)
  from Opt.prems have "st' \<in> set (rxm ic a st) \<or> st' = st" by auto
  then show ?case
  proof
    assume "st' \<in> set (rxm ic a st)" then show ?thesis by (rule Opt.IH)
  next
    assume "st' = st" then show ?thesis by simp
  qed
next
  case (Star a)
  from Star.prems have "st' \<in> set (starIter (rxm ic a) (length (fst st)) st)" by simp
  then show ?case by (rule starIter_shorter)
next
  case (Plus a)
  from Plus.prems obtain mid where m: "mid \<in> set (rxm ic a st)"
    "st' \<in> set (starIter (rxm ic a) (length (fst mid)) mid)"
    by auto
  from starIter_shorter [OF m(2)] Plus.IH [OF m(1)] show ?case by simp
next
  case (Rep n a)
  from Rep.prems have "st' \<in> set (repIter (rxm ic a) n st)" by simp
  then show ?case by (rule repIter_shorter [rotated]) (rule Rep.IH)
next
  case (AtLeast n a)
  from AtLeast.prems obtain mid where m: "mid \<in> set (repIter (rxm ic a) n st)"
    "st' \<in> set (starIter (rxm ic a) (length (fst mid)) mid)"
    by auto
  have "length (fst mid) \<le> length (fst st)"
    using m(1) by (rule repIter_shorter [rotated]) (rule AtLeast.IH)
  with starIter_shorter [OF m(2)] show ?case by simp
next
  case (Grp a)
  from Grp.prems obtain mid where "mid \<in> set (rxm ic a st)" "fst st' = fst mid"
    by auto
  with Grp.IH show ?case by simp
next
  case Eol
  then show ?case by (auto split: if_splits)
qed


lemma rxm_noGroup:
  "noGroup r \<Longrightarrow> st' \<in> set (rxm ic r st) \<Longrightarrow> snd st' = snd st"
proof (induction r arbitrary: st st')
  case Epsilon
  then show ?case by simp
next
  case (Chr c)
  then show ?case by (cases "fst st") (auto split: if_splits)
next
  case (Cls p)
  then show ?case by (cases "fst st") (auto split: if_splits)
next
  case (Seq a b)
  from Seq.prems obtain mid where m: "mid \<in> set (rxm ic a st)" "st' \<in> set (rxm ic b mid)"
    by auto
  from Seq.IH(1) [OF _ m(1)] Seq.IH(2) [OF _ m(2)] Seq.prems(1) show ?case by simp
next
  case (Alt a b)
  from Alt.prems have n: "noGroup a" "noGroup b" by simp_all
  from Alt.prems have "st' \<in> set (rxm ic a st) \<or> st' \<in> set (rxm ic b st)" by simp
  then show ?case
  proof
    assume "st' \<in> set (rxm ic a st)" with n(1) show ?thesis by (rule Alt.IH(1))
  next
    assume "st' \<in> set (rxm ic b st)" with n(2) show ?thesis by (rule Alt.IH(2))
  qed
next
  case (Opt a)
  from Opt.prems have n: "noGroup a" by simp
  from Opt.prems have "st' \<in> set (rxm ic a st) \<or> st' = st" by auto
  then show ?case
  proof
    assume "st' \<in> set (rxm ic a st)" with n show ?thesis by (rule Opt.IH)
  next
    assume "st' = st" then show ?thesis by simp
  qed
next
  case (Star a)
  have "snd st' = snd st"
  proof (rule starIter_invariant [where R = "\<lambda>x y. snd y = snd x" and f = "rxm ic a"
        and n = "length (fst st)"])
    show "st' \<in> set (starIter (rxm ic a) (length (fst st)) st)" using Star.prems by simp
    show "snd y = snd x" if "y \<in> set (rxm ic a x)" for x y
      using Star.IH that Star.prems(1) by simp
  qed simp_all
  then show ?case .
next
  case (Plus a)
  from Plus.prems obtain mid where m: "mid \<in> set (rxm ic a st)"
    "st' \<in> set (starIter (rxm ic a) (length (fst mid)) mid)"
    by auto
  have "snd st' = snd mid"
  proof (rule starIter_invariant [where R = "\<lambda>x y. snd y = snd x" and f = "rxm ic a"
        and n = "length (fst mid)"])
    show "st' \<in> set (starIter (rxm ic a) (length (fst mid)) mid)" by (rule m(2))
    show "snd y = snd x" if "y \<in> set (rxm ic a x)" for x y
      using Plus.IH that Plus.prems(1) by simp
  qed simp_all
  with Plus.IH [OF _ m(1)] Plus.prems(1) show ?case by simp
next
  case (Rep n a)
  have "snd st' = snd st"
  proof (rule repIter_invariant [where R = "\<lambda>x y. snd y = snd x" and f = "rxm ic a" and n = n])
    show "st' \<in> set (repIter (rxm ic a) n st)" using Rep.prems by simp
    show "snd y = snd x" if "y \<in> set (rxm ic a x)" for x y
      using Rep.IH that Rep.prems(1) by simp
  qed simp_all
  then show ?case .
next
  case (AtLeast n a)
  from AtLeast.prems obtain mid where m: "mid \<in> set (repIter (rxm ic a) n st)"
    "st' \<in> set (starIter (rxm ic a) (length (fst mid)) mid)"
    by auto
  have step: "snd y = snd x" if "y \<in> set (rxm ic a x)" for x y
    using AtLeast.IH that AtLeast.prems(1) by simp
  have "snd mid = snd st"
    by (rule repIter_invariant [where R = "\<lambda>x y. snd y = snd x" and f = "rxm ic a" and n = n])
      (use m(1) step in simp_all)
  moreover have "snd st' = snd mid"
    by (rule starIter_invariant [where R = "\<lambda>x y. snd y = snd x" and f = "rxm ic a"
          and n = "length (fst mid)"])
      (use m(2) step in simp_all)
  ultimately show ?case by simp
next
  case (Grp a)
  then show ?case by simp
next
  case Eol
  then show ?case by (auto split: if_splits)
qed


lemma rxm_consumes:
  "consumes r \<Longrightarrow> st' \<in> set (rxm ic r st) \<Longrightarrow> length (fst st') < length (fst st)"
proof (induction r arbitrary: st st')
  case (Chr c)
  then show ?case by (cases "fst st") (auto split: if_splits)
next
  case (Cls p)
  then show ?case by (cases "fst st") (auto split: if_splits)
next
  case (Seq a b)
  from Seq.prems obtain mid where m: "mid \<in> set (rxm ic a st)" "st' \<in> set (rxm ic b mid)"
    by auto
  from Seq.prems(1) have "consumes a \<or> consumes b" by simp
  then show ?case
  proof
    assume "consumes a"
    from Seq.IH(1) [OF this m(1)] rxm_shorter [OF m(2)] show ?thesis by simp
  next
    assume "consumes b"
    from Seq.IH(2) [OF this m(2)] rxm_shorter [OF m(1)] show ?thesis by simp
  qed
next
  case (Alt a b)
  from Alt.prems have c: "consumes a" "consumes b" by simp_all
  from Alt.prems have "st' \<in> set (rxm ic a st) \<or> st' \<in> set (rxm ic b st)" by simp
  then show ?case
  proof
    assume "st' \<in> set (rxm ic a st)" with c(1) show ?thesis by (rule Alt.IH(1))
  next
    assume "st' \<in> set (rxm ic b st)" with c(2) show ?thesis by (rule Alt.IH(2))
  qed
next
  case (Plus a)
  from Plus.prems obtain mid where m: "mid \<in> set (rxm ic a st)"
    "st' \<in> set (starIter (rxm ic a) (length (fst mid)) mid)"
    by auto
  from Plus.prems(1) have "consumes a" by simp
  from Plus.IH [OF this m(1)] starIter_shorter [OF m(2)] show ?case by simp
next
  case (Rep n a)
  from Rep.prems(1) obtain k where n: "n = Suc k" and c: "consumes a"
    by (cases n) auto
  from Rep.prems(2) n obtain mid where m: "mid \<in> set (rxm ic a st)"
    "st' \<in> set (repIter (rxm ic a) k mid)"
    by auto
  have "length (fst st') \<le> length (fst mid)"
    using m(2) by (rule repIter_shorter [rotated]) (rule rxm_shorter)
  with Rep.IH [OF c m(1)] show ?case by simp
next
  case (AtLeast n a)
  from AtLeast.prems(1) obtain k where n: "n = Suc k" and c: "consumes a"
    by (cases n) auto
  from AtLeast.prems(2) n obtain mid mid' where m: "mid \<in> set (rxm ic a st)"
    "mid' \<in> set (repIter (rxm ic a) k mid)"
    "st' \<in> set (starIter (rxm ic a) (length (fst mid')) mid')"
    by auto
  have "length (fst mid') \<le> length (fst mid)"
    using m(2) by (rule repIter_shorter [rotated]) (rule rxm_shorter)
  with AtLeast.IH [OF c m(1)] starIter_shorter [OF m(3)] show ?case by simp
next
  case (Grp a)
  from Grp.prems obtain mid where m: "mid \<in> set (rxm ic a st)" "fst st' = fst mid"
    by auto
  from Grp.prems(1) have "consumes a" by simp
  from Grp.IH [OF this m(1)] m(2) show ?case by simp
qed simp_all

lemma rxm_setsGroup:
  "setsGroup r \<Longrightarrow> st' \<in> set (rxm ic r st) \<Longrightarrow> \<exists>g. snd st' = Some g \<and> g \<noteq> []"
proof (induction r arbitrary: st st')
  case (Seq a b)
  from Seq.prems obtain mid where m: "mid \<in> set (rxm ic a st)" "st' \<in> set (rxm ic b mid)"
    by auto
  from Seq.prems(1) have "setsGroup b \<or> (setsGroup a \<and> noGroup b)" by simp
  then show ?case
  proof
    assume "setsGroup b"
    then show ?thesis using m(2) by (rule Seq.IH(2))
  next
    assume ab: "setsGroup a \<and> noGroup b"
    then have "\<exists>g. snd mid = Some g \<and> g \<noteq> []"
      using m(1) by (intro Seq.IH(1)) simp_all
    moreover have "snd st' = snd mid"
      using ab m(2) by (intro rxm_noGroup [of b]) simp_all
    ultimately show ?thesis by simp
  qed
next
  case (Alt a b)
  from Alt.prems have c: "setsGroup a" "setsGroup b" by simp_all
  from Alt.prems have "st' \<in> set (rxm ic a st) \<or> st' \<in> set (rxm ic b st)" by simp
  then show ?case
  proof
    assume "st' \<in> set (rxm ic a st)" with c(1) show ?thesis by (rule Alt.IH(1))
  next
    assume "st' \<in> set (rxm ic b st)" with c(2) show ?thesis by (rule Alt.IH(2))
  qed
next
  case (Grp a)
  from Grp.prems obtain mid where m: "mid \<in> set (rxm ic a st)"
    "snd st' = Some (take (length (fst st) - length (fst mid)) (fst st))"
    by auto
  from Grp.prems(1) have "consumes a" by simp
  from rxm_consumes [OF this m(1)] have "take (length (fst st) - length (fst mid)) (fst st) \<noteq> []"
    by (cases "fst st") auto
  with m(2) show ?case by simp
qed simp_all

lemma LOG_LEVEL_PATTERNS_group: "\<forall>r \<in> set LOG_LEVEL_PATTERNS. setsGroup r"
  by (simp add: LOG_LEVEL_PATTERNS_def levelGroup_def)

lemma firstLevel_not_empty:
  "\<forall>r \<in> set patterns. setsGroup r \<Longrightarrow> firstLevel patterns line = Some l \<Longrightarrow> l \<noteq> []"
proof (induction patterns)
  case Nil
  then show ?case by simp
next
  case (Cons r rs)
  show ?case
  proof (cases "rxm True r (line, None)")
    case Nil
    with Cons show ?thesis by (simp add: rxExec_def)
  next
    case found: (Cons st rest)
    then have "st \<in> set (rxm True r (line, None))" by simp
    with Cons.prems(1) obtain g where "snd st = Some g" "g \<noteq> []"
      using rxm_setsGroup [of r st True "(line, None)"] by auto
    with found Cons.prems(2) show ?thesis
      by (auto simp: rxExec_def toUpperCase_def)
  qed
qed

lemma extractLogLevel_not_empty: "extractLogLevel line \<noteq> Some []"
  using firstLevel_not_empty [OF LOG_LEVEL_PATTERNS_group, of line "[]"]
  by (auto simp: extractLogLevel_def)

lemma lineLevel_eq: "lineLevel line = map_option normalizeLevel (extractLogLevel line)"
  using extractLogLevel_not_empty [of line]
  by (cases "extractLogLevel line") (auto simp: lineLevel_def)

lemma rxExec_group: "setsGroup r \<Longrightarrow> rxExec ic r s \<noteq> Some None"
proof (cases "rxm ic r (s, None)")
  case Nil
  then show ?thesis by (simp add: rxExec_def)
next
  case (Cons st rest)
  assume "setsGroup r"
  moreover from Cons have "st \<in> set (rxm ic r (s, None))" by simp
  ultimately have "\<exists>g. snd st = Some g \<and> g \<noteq> []" by (rule rxm_setsGroup)
  with Cons show ?thesis by (auto simp: rxExec_def)
qed

lemma matchLength_positive:
  assumes "consumes r" "matchLength r s = Some n"
  shows "0 < n"
proof (cases "rxm False r (s, None)")
  case Nil
  with assms(2) show ?thesis by (simp add: matchLength_def)
next
  case (Cons st rest)
  then have "st \<in> set (rxm False r (s, None))" by simp
  from rxm_consumes [OF assms(1) this] Cons assms(2) show ?thesis
    by (auto simp: matchLength_def)
qed

lemma tag_and_text_consume: "consumes tagPattern" "consumes textPattern"
  by (simp_all add: tagPattern_def textPattern_def)

section \<open>Log viewer\<close>

lemma repIter_numeral [simp]:
  "repIter f (numeral k) st = concat (map (repIter f (pred_numeral k)) (f st))"
  by (simp add: numeral_eq_Suc)

lemmas rx_eval = extractLogLevel_def LOG_LEVEL_PATTERNS_def levelGroup_def rxExec_def js_def
  digit_def whiteSpace_def canonEq_def upperAscii_def toUpperCase_def isNewEntryStart_def
  NEW_ENTRY_PATTERNS_def rxTest_def wordChar_def

lemma filterLoop_append:
  "filterLoop T (xs @ ys) st = filterLoop T ys (filterLoop T xs st)"
  by (induction xs arbitrary: st) (simp_all add: Let_def)

lemma lineVisible_continuation:
  "isContinuation line \<Longrightarrow> lineVisible T line v = v"
  by (auto simp: isContinuation_def lineLevel_def lineVisible_def Let_def split: option.splits if_splits)

lemma lineVisible_head:
  "\<not> isContinuation line \<Longrightarrow> lineVisible T line v = (lineLevel line = Some T)"
  by (auto simp: isContinuation_def lineLevel_def lineVisible_def Let_def split: option.splits if_splits)

lemma filterLoop_continuations:
  "\<forall>l \<in> set cs. isContinuation l \<Longrightarrow>
   filterLoop T cs (v, r) = (v, if v then r @ cs else r)"
  by (induction cs arbitrary: r) (simp_all add: Let_def lineVisible_continuation)

lemma filterLoop_block:
  assumes "\<not> isContinuation h"
  shows "filterLoop T (h # takeWhile isContinuation rest) (v, r) =
           (lineLevel h = Some T,
            if lineLevel h = Some T then r @ h # takeWhile isContinuation rest else r)"
proof -
  have c: "\<forall>l \<in> set (takeWhile isContinuation rest). isContinuation l"
    by (auto dest: set_takeWhileD)
  show ?thesis
    using assms by (simp add: Let_def lineVisible_head filterLoop_continuations [OF c])
qed

lemma filterLoop_blocks:
  "lines = [] \<or> \<not> isContinuation (hd lines) \<Longrightarrow>
   snd (filterLoop T lines (v, r)) =
     r @ concat (map blockLines (filter (\<lambda>b. lineLevel (fst b) = Some T) (spec_blocks lines)))"
proof (induction lines arbitrary: v r rule: spec_blocks.induct)
  case 1
  then show ?case by simp
next
  case (2 h rest)
  let ?cs = "takeWhile isContinuation rest" and ?tl = "dropWhile isContinuation rest"
  from "2.prems" have h: "\<not> isContinuation h" by simp
  have tl: "?tl = [] \<or> \<not> isContinuation (hd ?tl)"
    using hd_dropWhile [of "isContinuation" rest] by blast
  have "filterLoop T (h # rest) (v, r) = filterLoop T ?tl (filterLoop T (h # ?cs) (v, r))"
    using filterLoop_append [of T "h # ?cs" ?tl "(v, r)"] by simp
  then show ?case
    using "2.IH" [OF tl] h
    by (simp only: filterLoop_block [OF h]) (simp add: blockLines_def)
qed

lemma spec_blocks_partition:
  "lines = [] \<or> \<not> isContinuation (hd lines) \<Longrightarrow>
   concat (map blockLines (spec_blocks lines)) = lines \<and>
   (\<forall>b \<in> set (spec_blocks lines). \<not> isContinuation (fst b) \<and> (\<forall>l \<in> set (snd b). isContinuation l))"
proof (induction lines rule: spec_blocks.induct)
  case 1
  then show ?case by simp
next
  case (2 h rest)
  have tl: "dropWhile isContinuation rest = [] \<or> \<not> isContinuation (hd (dropWhile isContinuation rest))"
    using hd_dropWhile [of "isContinuation" rest] by blast
  from "2.IH" [OF tl] "2.prems" show ?case
    by (auto simp: blockLines_def dest: set_takeWhileD)
qed

text \<open>
  C2. For a level other than \<open>all\<close>, \<open>filterByLevel\<close> yields exactly the blocks whose
  first line has a recognized level marker with the level asked for (both normalised),
  in order, joined by newlines. A block is a line that has a level marker or starts a
  new entry, with the continuation lines after it: a continuation line is shown or
  hidden with the line that owns it. A line without a level marker that starts a new
  entry (a step marker, \<open>[CONFIG]\<close>, a separator, a timestamp, a Python path) owns a
  block that is never shown, and the lines before the first block are not shown.
\<close>

theorem filterByLevel_blocks:
  assumes "level \<noteq> js ''all''"
  shows "filterByLevel content level =
     joinLines (concat (map blockLines
       (filter (\<lambda>b. lineLevel (fst b) = Some (normalizeLevel level))
          (spec_blocks (dropWhile isContinuation (splitLines content))))))"
proof -
  let ?ls = "splitLines content" and ?T = "normalizeLevel level"
  have lead: "filterLoop ?T (takeWhile isContinuation ?ls) (False, []) = (False, [])"
    by (rule filterLoop_continuations [of _ ?T False "[]", simplified]) (auto dest: set_takeWhileD)
  have tl: "dropWhile isContinuation ?ls = [] \<or> \<not> isContinuation (hd (dropWhile isContinuation ?ls))"
    using hd_dropWhile [of "isContinuation" ?ls] by blast
  have "filterLoop ?T ?ls (False, []) =
          filterLoop ?T (dropWhile isContinuation ?ls)
            (filterLoop ?T (takeWhile isContinuation ?ls) (False, []))"
    using filterLoop_append [of ?T "takeWhile isContinuation ?ls" "dropWhile isContinuation ?ls"]
    by simp
  with lead have "snd (filterLoop ?T ?ls (False, [])) =
      snd (filterLoop ?T (dropWhile isContinuation ?ls) (False, []))"
    by simp
  also have "\<dots> = concat (map blockLines (filter (\<lambda>b. lineLevel (fst b) = Some ?T)
      (spec_blocks (dropWhile isContinuation ?ls))))"
    using filterLoop_blocks [OF tl, of ?T False "[]"] by simp
  finally show ?thesis
    using assms by (simp add: filterByLevel_def)
qed


lemma js_eq_iff [simp]: "js a = js b \<longleftrightarrow> a = b"
  unfolding js_def by (rule inj_map_eq_map) (rule injI, simp)

lemma js_Nil_iff [simp]: "js a = [] \<longleftrightarrow> a = []" "[] = js a \<longleftrightarrow> a = []"
  by (auto simp: js_def)

lemma splitOn_no_sep: "sep \<notin> set x \<Longrightarrow> splitOn sep x = [x]"
  by (induction x) auto

lemma splitOn_append_sep:
  "sep \<notin> set x \<Longrightarrow> splitOn sep (x @ sep # rest) = x # splitOn sep rest"
  by (induction x) (auto split: list.splits)

lemma splitLines_joinLines:
  "ls \<noteq> [] \<Longrightarrow> \<forall>l \<in> set ls. 10 \<notin> set l \<Longrightarrow> splitLines (joinLines ls) = ls"
  unfolding splitLines_def joinLines_def
proof (induction "[10::nat]" ls rule: joinWith.induct)
  case 1
  then show ?case by simp
next
  case (2 x)
  then show ?case by (simp add: splitOn_no_sep)
next
  case (3 x y ys)
  then show ?case by (simp add: splitOn_append_sep)
qed

lemma normalizeLevel_names:
  "normalizeLevel (js ''warn'') = js ''WARN''" "normalizeLevel (js ''WARN'') = js ''WARN''"
  "normalizeLevel (js ''WARNING'') = js ''WARN''" "normalizeLevel (js ''error'') = js ''ERROR''"
  "normalizeLevel (js ''ERROR'') = js ''ERROR''" "normalizeLevel (js ''CRITICAL'') = js ''ERROR''"
  "normalizeLevel (js ''info'') = js ''INFO''" "normalizeLevel (js ''INFO'') = js ''INFO''"
  by (simp_all add: normalizeLevel_def toUpperCase_def upperAscii_def js_def)

lemma ex_lines_levels:
  "extractLogLevel (js ''  banner'') = None"
  "extractLogLevel (js ''[2026-01-07 12:00:00] [WARNING] disk low'') = Some (js ''WARNING'')"
  "extractLogLevel (js ''  at check (disk.py)'') = None"
  "extractLogLevel (js ''INFO: scan started'') = Some (js ''INFO'')"
  "extractLogLevel (js ''  detail'') = None"
  "extractLogLevel (js ''[1/4] resolving'') = None"
  "extractLogLevel (js ''warn: slow answer'') = Some (js ''WARN'')"
  "extractLogLevel (js ''CRITICAL - lost worker'') = Some (js ''CRITICAL'')"
  "extractLogLevel (js ''  10 hosts'') = None"
  by (simp_all add: rx_eval del: js_eq_iff)

lemma ex_lines_entries:
  "\<not> isNewEntryStart (js ''  banner'')"
  "\<not> isNewEntryStart (js ''  at check (disk.py)'')"
  "\<not> isNewEntryStart (js ''  detail'')"
  "isNewEntryStart (js ''[1/4] resolving'')"
  "\<not> isNewEntryStart (js ''  10 hosts'')"
  by (simp_all add: rx_eval del: js_eq_iff)

lemma ex_lines_no_newline:
  "10 \<notin> set (js ''  banner'')"
  "10 \<notin> set (js ''[2026-01-07 12:00:00] [WARNING] disk low'')"
  "10 \<notin> set (js ''  at check (disk.py)'')"
  "10 \<notin> set (js ''INFO: scan started'')"
  "10 \<notin> set (js ''  detail'')"
  "10 \<notin> set (js ''[1/4] resolving'')"
  "10 \<notin> set (js ''warn: slow answer'')"
  "10 \<notin> set (js ''CRITICAL - lost worker'')"
  "10 \<notin> set (js ''  10 hosts'')"
  by (simp_all add: js_def)

lemma ex_lines_lineLevel:
  "lineLevel (js ''  banner'') = None"
  "lineLevel (js ''[2026-01-07 12:00:00] [WARNING] disk low'') = Some (js ''WARN'')"
  "lineLevel (js ''  at check (disk.py)'') = None"
  "lineLevel (js ''INFO: scan started'') = Some (js ''INFO'')"
  "lineLevel (js ''  detail'') = None"
  "lineLevel (js ''[1/4] resolving'') = None"
  "lineLevel (js ''warn: slow answer'') = Some (js ''WARN'')"
  "lineLevel (js ''CRITICAL - lost worker'') = Some (js ''ERROR'')"
  "lineLevel (js ''  10 hosts'') = None"
  by (simp_all add: lineLevel_def ex_lines_levels normalizeLevel_names)

lemma ex_lines_continuation:
  "isContinuation (js ''  banner'')"
  "\<not> isContinuation (js ''[2026-01-07 12:00:00] [WARNING] disk low'')"
  "isContinuation (js ''  at check (disk.py)'')"
  "\<not> isContinuation (js ''INFO: scan started'')"
  "isContinuation (js ''  detail'')"
  "\<not> isContinuation (js ''[1/4] resolving'')"
  "\<not> isContinuation (js ''warn: slow answer'')"
  "\<not> isContinuation (js ''CRITICAL - lost worker'')"
  "isContinuation (js ''  10 hosts'')"
  by (simp_all add: isContinuation_def ex_lines_lineLevel ex_lines_entries)

lemma ex_log_mixed_lines:
  "splitLines ex_log_mixed =
     [js ''  banner'',
      js ''[2026-01-07 12:00:00] [WARNING] disk low'',
      js ''  at check (disk.py)'',
      js ''INFO: scan started'',
      js ''  detail'',
      js ''[1/4] resolving'',
      js ''warn: slow answer'',
      js ''CRITICAL - lost worker'']"
  unfolding ex_log_mixed_def by (rule splitLines_joinLines) (simp_all add: ex_lines_no_newline)

lemma ex_log_steps_lines:
  "splitLines ex_log_steps = [js ''INFO: scan started'', js ''[1/4] resolving'', js ''  10 hosts'']"
  unfolding ex_log_steps_def by (rule splitLines_joinLines) (simp_all add: ex_lines_no_newline)

theorem filterByLevel_blocks_witness:
  "js ''warn'' \<noteq> js ''all'' \<and>
   filterByLevel ex_log_mixed (js ''warn'') =
     joinLines [js ''[2026-01-07 12:00:00] [WARNING] disk low'',
                js ''  at check (disk.py)'',
                js ''warn: slow answer'']"
proof -
  have a: "js ''warn'' \<noteq> js ''all''" by simp
  show ?thesis
    using filterByLevel_blocks [OF a, of ex_log_mixed] a
    by (simp add: ex_log_mixed_lines ex_lines_continuation ex_lines_lineLevel
        normalizeLevel_names blockLines_def)
qed

lemma lineVisible_eq:
  "lineVisible T line v =
     (if isContinuation line then v else lineLevel line = Some T)"
  by (simp add: lineVisible_continuation lineVisible_head)

text \<open>
  The claim as written fails on a line without a level marker that starts a new entry:
  after a visible \<open>INFO\<close> line, the step line \<open>[1/4] ...\<close> and its continuation line are
  dropped, though the nearest preceding line with a level marker is shown.
\<close>

theorem filterByLevel_new_entry_counterexample:
  "extractLogLevel (js ''INFO: scan started'') = Some (js ''INFO'') \<and>
   extractLogLevel (js ''[1/4] resolving'') = None \<and>
   extractLogLevel (js ''  10 hosts'') = None \<and>
   splitLines ex_log_steps =
     [js ''INFO: scan started'', js ''[1/4] resolving'', js ''  10 hosts''] \<and>
   filterByLevel ex_log_steps (js ''info'') = js ''INFO: scan started''"
  by (simp add: ex_lines_levels ex_log_steps_lines filterByLevel_def normalizeLevel_names
      Let_def lineVisible_eq ex_lines_continuation ex_lines_lineLevel joinLines_def)

lemma filterLoop_result:
  "filterLoop T xs (v, r) = (fst (filterLoop T xs (v, [])), r @ snd (filterLoop T xs (v, [])))"
proof (induction xs arbitrary: v r)
  case Nil
  then show ?case by simp
next
  case (Cons x xs)
  show ?case
  proof (cases "lineVisible T x v")
    case True
    then show ?thesis
      using Cons.IH [of True "r @ [x]"] Cons.IH [of True "[x]"] by (simp add: Let_def)
  next
    case False
    then show ?thesis
      using Cons.IH [of False r] by (simp add: Let_def)
  qed
qed

lemma filterLoop_level_line:
  assumes "lineLevel line = Some T"
  shows "snd (filterLoop T (before @ line # after) (False, [])) =
           snd (filterLoop T before (False, [])) @ line # snd (filterLoop T after (True, []))"
proof -
  have h: "\<not> isContinuation line"
    using assms by (simp add: isContinuation_def)
  obtain v r where b: "filterLoop T before (False, []) = (v, r)"
    by (cases "filterLoop T before (False, [])")
  have "filterLoop T (before @ line # after) (False, []) = filterLoop T after (True, r @ [line])"
    using assms h by (simp add: filterLoop_append b Let_def lineVisible_head)
  then show ?thesis
    using filterLoop_result [of T after True "r @ [line]"] b by simp
qed

text \<open>
  C10. Level names are normalised before they are compared. A line whose marker is
  \<open>WARNING\<close> is kept by the level \<open>warn\<close>, and one whose marker is \<open>CRITICAL\<close> by the
  level \<open>error\<close>: the output is what is kept of the lines before it, the line, and what
  is kept of the lines after it from a visible state. For every level, a \<open>WARNING\<close>
  line sets the same visibility as a \<open>WARN\<close> line, and a \<open>CRITICAL\<close> line the same as
  an \<open>ERROR\<close> line.
\<close>

theorem filterByLevel_level_synonyms:
  assumes "splitLines content = before @ line # after"
  shows
    "(extractLogLevel line = Some (js ''WARNING'') \<longrightarrow>
        filterByLevel content (js ''warn'') =
          joinLines (snd (filterLoop (js ''WARN'') before (False, [])) @ line #
                     snd (filterLoop (js ''WARN'') after (True, [])))) \<and>
     (extractLogLevel line = Some (js ''CRITICAL'') \<longrightarrow>
        filterByLevel content (js ''error'') =
          joinLines (snd (filterLoop (js ''ERROR'') before (False, [])) @ line #
                     snd (filterLoop (js ''ERROR'') after (True, [])))) \<and>
     (extractLogLevel line = Some (js ''WARNING'') \<and> extractLogLevel other = Some (js ''WARN'') \<longrightarrow>
        lineVisible (normalizeLevel level) line v = lineVisible (normalizeLevel level) other v') \<and>
     (extractLogLevel line = Some (js ''CRITICAL'') \<and> extractLogLevel other = Some (js ''ERROR'') \<longrightarrow>
        lineVisible (normalizeLevel level) line v = lineVisible (normalizeLevel level) other v')"
proof (intro conjI impI)
  assume "extractLogLevel line = Some (js ''WARNING'')"
  then have "lineLevel line = Some (js ''WARN'')"
    by (simp add: lineLevel_def normalizeLevel_names)
  from filterLoop_level_line [OF this, of before after] assms
  show "filterByLevel content (js ''warn'') =
          joinLines (snd (filterLoop (js ''WARN'') before (False, [])) @ line #
                     snd (filterLoop (js ''WARN'') after (True, [])))"
    by (simp add: filterByLevel_def normalizeLevel_names)
next
  assume "extractLogLevel line = Some (js ''CRITICAL'')"
  then have "lineLevel line = Some (js ''ERROR'')"
    by (simp add: lineLevel_def normalizeLevel_names)
  from filterLoop_level_line [OF this, of before after] assms
  show "filterByLevel content (js ''error'') =
          joinLines (snd (filterLoop (js ''ERROR'') before (False, [])) @ line #
                     snd (filterLoop (js ''ERROR'') after (True, [])))"
    by (simp add: filterByLevel_def normalizeLevel_names)
next
  assume "extractLogLevel line = Some (js ''WARNING'') \<and> extractLogLevel other = Some (js ''WARN'')"
  then show "lineVisible (normalizeLevel level) line v = lineVisible (normalizeLevel level) other v'"
    by (simp add: lineVisible_def normalizeLevel_names)
next
  assume "extractLogLevel line = Some (js ''CRITICAL'') \<and> extractLogLevel other = Some (js ''ERROR'')"
  then show "lineVisible (normalizeLevel level) line v = lineVisible (normalizeLevel level) other v'"
    by (simp add: lineVisible_def normalizeLevel_names)
qed

theorem filterByLevel_level_synonyms_witness:
  "filterByLevel ex_log_mixed (js ''warn'') =
     joinLines [js ''[2026-01-07 12:00:00] [WARNING] disk low'',
                js ''  at check (disk.py)'',
                js ''warn: slow answer''] \<and>
   filterByLevel ex_log_mixed (js ''error'') = js ''CRITICAL - lost worker''"
proof -
  have a: "filterByLevel ex_log_mixed (js ''warn'') =
     joinLines [js ''[2026-01-07 12:00:00] [WARNING] disk low'',
                js ''  at check (disk.py)'',
                js ''warn: slow answer'']"
    using filterByLevel_level_synonyms
      [where content = ex_log_mixed and before = "[js ''  banner'']"
         and line = "js ''[2026-01-07 12:00:00] [WARNING] disk low''"
         and after = "[js ''  at check (disk.py)'', js ''INFO: scan started'', js ''  detail'',
                      js ''[1/4] resolving'', js ''warn: slow answer'',
                      js ''CRITICAL - lost worker'']"]
    by (simp add: ex_log_mixed_lines ex_lines_levels Let_def lineVisible_eq
        ex_lines_continuation ex_lines_lineLevel)
  have b: "filterByLevel ex_log_mixed (js ''error'') = js ''CRITICAL - lost worker''"
    using filterByLevel_level_synonyms
      [where content = ex_log_mixed and line = "js ''CRITICAL - lost worker''"
         and after = "[]"
         and before = "[js ''  banner'', js ''[2026-01-07 12:00:00] [WARNING] disk low'',
                       js ''  at check (disk.py)'', js ''INFO: scan started'', js ''  detail'',
                       js ''[1/4] resolving'', js ''warn: slow answer'']"]
    by (simp add: ex_log_mixed_lines ex_lines_levels Let_def lineVisible_eq
        ex_lines_continuation ex_lines_lineLevel joinLines_def)
  from a b show ?thesis by simp
qed

section \<open>Column widths\<close>
































lemma length_js [simp]: "length (js s) = length s"
  by (simp add: js_def)











lemma optColumns_options [simp]:
  "optColumns (tableWidthOptions rows columns l) = columns"
  "optColumns (ex_width_options cap columns) = columns"
  by (simp_all add: tableWidthOptions_def ex_width_options_def)


lemma ex_name_not_proto: "js ''name'' \<noteq> js ''__proto__''"
  by simp





section \<open>Search highlighting\<close>

subsection \<open>The pattern of the query\<close>








subsection \<open>The pattern of tags and text\<close>














subsection \<open>The matches in a run of text\<close>








subsection \<open>A rendered log line\<close>

lemma logLineRegex_group: "setsGroup logLineRegex"
  by (simp add: logLineRegex_def timestampPattern_def levelGroup_def)

lemma rxm_suffix: "st' \<in> set (rxm ic r st) \<Longrightarrow> \<exists>c. fst st = c @ fst st'"
proof (induction r arbitrary: st st')
  case Epsilon
  then show ?case by simp
next
  case (Chr c)
  then show ?case by (cases "fst st") (auto split: if_splits)
next
  case (Cls p)
  then show ?case by (cases "fst st") (auto split: if_splits)
next
  case (Seq a b)
  from Seq.prems obtain mid where m: "mid \<in> set (rxm ic a st)" "st' \<in> set (rxm ic b mid)"
    by auto
  from Seq.IH(1) [OF m(1)] Seq.IH(2) [OF m(2)] show ?case by auto
next
  case (Alt a b)
  from Alt.prems have "st' \<in> set (rxm ic a st) \<or> st' \<in> set (rxm ic b st)" by simp
  then show ?case
  proof
    assume "st' \<in> set (rxm ic a st)" then show ?thesis by (rule Alt.IH(1))
  next
    assume "st' \<in> set (rxm ic b st)" then show ?thesis by (rule Alt.IH(2))
  qed
next
  case (Opt a)
  from Opt.prems have "st' \<in> set (rxm ic a st) \<or> st' = st" by auto
  then show ?case
  proof
    assume "st' \<in> set (rxm ic a st)" then show ?thesis by (rule Opt.IH)
  next
    assume "st' = st" then show ?thesis by simp
  qed
next
  case (Star a)
  from Star.prems have "st' \<in> set (starIter (rxm ic a) (length (fst st)) st)" by simp
  then show ?case
    by (rule starIter_invariant [rotated 3]) (use Star.IH in auto)
next
  case (Plus a)
  from Plus.prems obtain mid where m: "mid \<in> set (rxm ic a st)"
    "st' \<in> set (starIter (rxm ic a) (length (fst mid)) mid)"
    by auto
  have "\<exists>c. fst mid = c @ fst st'"
    using m(2) by (rule starIter_invariant [rotated 3]) (use Plus.IH in auto)
  with Plus.IH [OF m(1)] show ?case by auto
next
  case (Rep n a)
  from Rep.prems have "st' \<in> set (repIter (rxm ic a) n st)" by simp
  then show ?case
    by (rule repIter_invariant [rotated 3]) (use Rep.IH in auto)
next
  case (AtLeast n a)
  from AtLeast.prems obtain mid where m: "mid \<in> set (repIter (rxm ic a) n st)"
    "st' \<in> set (starIter (rxm ic a) (length (fst mid)) mid)"
    by auto
  have "\<exists>c. fst st = c @ fst mid"
    using m(1) by (rule repIter_invariant [rotated 3]) (use AtLeast.IH in auto)
  moreover have "\<exists>c. fst mid = c @ fst st'"
    using m(2) by (rule starIter_invariant [rotated 3]) (use AtLeast.IH in auto)
  ultimately show ?case by auto
next
  case (Grp a)
  from Grp.prems obtain mid where "mid \<in> set (rxm ic a st)" "fst st' = fst mid"
    by auto
  with Grp.IH show ?case by auto
next
  case Eol
  then show ?case by (auto split: if_splits)
qed

lemma repIter_fixed:
  assumes "\<And>x y. y \<in> set (f x) \<Longrightarrow> length (fst x) = m + length (fst y)"
  shows "y \<in> set (repIter f n x) \<Longrightarrow> length (fst x) = n * m + length (fst y)"
proof (induction n arbitrary: x)
  case 0
  then show ?case by simp
next
  case (Suc n)
  from Suc.prems obtain mid where mid: "mid \<in> set (f x)" "y \<in> set (repIter f n mid)"
    by auto
  from Suc.IH [OF mid(2)] assms [OF mid(1)] show ?case by simp
qed

lemma rxm_fixedLength:
  "fixedLength r = Some n \<Longrightarrow> st' \<in> set (rxm ic r st) \<Longrightarrow>
   length (fst st) = n + length (fst st')"
proof (induction r arbitrary: n st st')
  case (Chr c)
  then show ?case by (cases "fst st") (auto split: if_splits)
next
  case (Cls p)
  then show ?case by (cases "fst st") (auto split: if_splits)
next
  case (Seq a b)
  from Seq.prems(1) obtain k l where kl: "fixedLength a = Some k" "fixedLength b = Some l"
    "n = k + l"
    by (auto split: option.splits)
  from Seq.prems(2) obtain mid where m: "mid \<in> set (rxm ic a st)" "st' \<in> set (rxm ic b mid)"
    by auto
  from Seq.IH(1) [OF kl(1) m(1)] Seq.IH(2) [OF kl(2) m(2)] kl(3) show ?case by simp
next
  case (Rep k a)
  from Rep.prems(1) obtain l where l: "fixedLength a = Some l" "n = k * l"
    by auto
  from Rep.prems(2) have "st' \<in> set (repIter (rxm ic a) k st)" by simp
  then have "length (fst st) = k * l + length (fst st')"
    by (rule repIter_fixed [rotated]) (rule Rep.IH [OF l(1)])
  with l(2) show ?case by simp
qed simp_all

lemma rxm_lit:
  "st' \<in> set (rxm False (lit s) st) \<Longrightarrow> fst st = js s @ fst st' \<and> snd st' = snd st"
proof (induction s arbitrary: st)
  case Nil
  then show ?case by (simp add: js_def)
next
  case (Cons c s)
  from Cons.prems obtain mid where m: "mid \<in> set (rxm False (Chr (of_char c)) st)"
    "st' \<in> set (rxm False (lit s) mid)"
    by auto
  from m(1) have "fst st = of_char c # fst mid \<and> snd mid = snd st"
    by (cases "fst st") (auto simp: canonEq_def split: if_splits)
  with Cons.IH [OF m(2)] show ?case by (simp add: js_def)
qed

lemma rxm_Grp:
  assumes "st' \<in> set (rxm ic (Grp a) st)"
  shows "\<exists>g. snd st' = Some g \<and> fst st = g @ fst st'"
proof -
  from assms obtain mid where m: "mid \<in> set (rxm ic a st)" "fst st' = fst mid"
    "snd st' = Some (take (length (fst st) - length (fst mid)) (fst st))"
    by auto
  from rxm_suffix [OF m(1)] obtain c where "fst st = c @ fst mid"
    by blast
  with m(2,3) show ?thesis by simp
qed

text \<open>
  The groups of \<open>logLineRegex\<close>, as \<open>colorizeLine\<close> takes them from the positions: a
  line that matches is its first 21 characters, a blank, the level in brackets, a
  blank, and the rest.
\<close>

lemma logLineRegex_groups:
  assumes "rxExec False logLineRegex line = Some (Some level)"
  shows "line = take 21 line @ js '' ['' @ level @ js ''] '' @ drop (25 + length level) line \<and>
         length (take 21 line) = 21"
proof -
  from assms obtain st where st: "st \<in> set (rxm False logLineRegex (line, None))"
    "snd st = Some level"
    by (cases "rxm False logLineRegex (line, None)") (auto simp: rxExec_def)
  let ?tail = "Seq (Star (Cls (\<lambda>c. \<not> lineTerminator c))) (Seq Eol Epsilon)"
  from st(1) obtain st1 st2 st3 st4 where
    s1: "st1 \<in> set (rxm False timestampPattern (line, None))" and
    s2: "st2 \<in> set (rxm False (lit '' ['') st1)" and
    s3: "st3 \<in> set (rxm False levelGroup st2)" and
    s4: "st4 \<in> set (rxm False (lit ''] '') st3)" and
    s5: "st \<in> set (rxm False ?tail st4)"
    unfolding logLineRegex_def seqs.simps rxm.simps(4) by auto
  have fl: "fixedLength timestampPattern = Some 21"
    by (simp add: timestampPattern_def)
  from rxm_fixedLength [OF fl s1] have l1: "length line = 21 + length (fst st1)"
    by simp
  from rxm_suffix [OF s1] obtain c1 where c1: "line = c1 @ fst st1"
    by auto
  from l1 c1 have "length c1 = 21"
    by (metis add_right_cancel length_append)
  from rxm_lit [OF s2] have c2: "fst st1 = js '' ['' @ fst st2"
    by simp
  from rxm_Grp [OF s3 [unfolded levelGroup_def]] obtain g where
    g: "snd st3 = Some g" "fst st2 = g @ fst st3"
    by blast
  from rxm_lit [OF s4] have c4: "fst st3 = js ''] '' @ fst st4" "snd st4 = snd st3"
    by simp_all
  have "noGroup ?tail" by simp
  from rxm_noGroup [OF this s5] have "snd st = snd st4" .
  with st(2) c4(2) g(1) have level: "g = level"
    by simp
  have whole: "line = c1 @ js '' ['' @ level @ js ''] '' @ fst st4"
    using c1 c2 g(2) c4(1) level by simp
  have "take 21 line = c1" "drop (25 + length level) line = fst st4"
    using \<open>length c1 = 21\<close> by (subst whole, simp)+
  with whole \<open>length c1 = 21\<close> show ?thesis
    by simp
qed

lemma colorizeLine_groups: "rxExec False logLineRegex line \<noteq> Some None"
  by (rule rxExec_group [OF logLineRegex_group])



















end
